theory Spec2Isabelle
  imports Main "HOL-Library.Sublist" "HOL-Library.AList"
begin

section \<open>Strings\<close>

text \<open>
  Object keys and file names are \<open>string\<close>s. The functions below are the Python string
  and \<open>os.path\<close> operations that \<open>extract_zip\<close> in \<open>functions/main.py\<close> applies to them.
\<close>

text \<open>\<open>str.split(sep)\<close> for a one-character separator: never empty, keeps empty segments.\<close>

fun split_on :: "char \<Rightarrow> string \<Rightarrow> string list" where
  "split_on sep [] = [[]]"
| "split_on sep (c # cs) =
     (let ps = split_on sep cs
      in if c = sep then [] # ps else (c # hd ps) # tl ps)"

text \<open>
  \<open>str.lower()\<close> on the ASCII letters. No other character lowercases to one of
  \<open>.\<close>, \<open>z\<close>, \<open>i\<close>, \<open>p\<close> alone, so the test \<open>lower().endswith(".zip")\<close> is the same.
\<close>

definition lower_char :: "char \<Rightarrow> char" where
  "lower_char c =
     (case map_of (zip ''ABCDEFGHIJKLMNOPQRSTUVWXYZ'' ''abcdefghijklmnopqrstuvwxyz'') c of
        None \<Rightarrow> c
      | Some l \<Rightarrow> l)"

definition lower :: "string \<Rightarrow> string" where
  "lower s = map lower_char s"

text \<open>\<open>str.rfind(c)\<close>: the index of the last occurrence, or \<open>-1\<close>.\<close>

definition rfind :: "char \<Rightarrow> string \<Rightarrow> int" where
  "rfind c s =
     (if c \<in> set s
      then int (length s) - 1 - int (length (takeWhile (\<lambda>x. x \<noteq> c) (rev s)))
      else - 1)"

text \<open>
  \<open>os.path.splitext\<close> (POSIX): the extension starts at the last dot after the last
  slash, unless only dots stand between that slash and that dot.
\<close>

definition splitext :: "string \<Rightarrow> string \<times> string" where
  "splitext p =
     (let sepIndex = rfind CHR ''/'' p; dotIndex = rfind CHR ''.'' p
      in if dotIndex > sepIndex \<and>
            list_ex (\<lambda>x. x \<noteq> CHR ''.'')
              (take (nat dotIndex - nat (sepIndex + 1)) (drop (nat (sepIndex + 1)) p))
         then (take (nat dotIndex) p, drop (nat dotIndex) p)
         else (p, []))"

text \<open>The \<open>filename\<close> that \<open>os.walk\<close> yields for a file at a relative path.\<close>

definition basename :: "string \<Rightarrow> string" where
  "basename p = last (split_on CHR ''/'' p)"

section \<open>Storage, document store and backend\<close>

text \<open>
  An object of the bucket: its bytes and its metadata. The bucket of a run is the one the
  event names; it is an association list from object names to objects, so that it can be
  enumerated by prefix. The Firestore collection \<open>users/{uid}/chatFoldersCache\<close> is a map
  from (uid, document id) to the \<open>updated_at\<close> field.
\<close>

record blob =
  content :: string
  content_type :: string

record world =
  objects :: "(string \<times> blob) list"
  cache :: "string \<times> string \<Rightarrow> nat option"

text \<open>The calls a run issues to its collaborators, in order.\<close>

datatype call =
    DownloadToFilename string
  | UploadFromFilename string
  | BlobExists string
  | ListBlobs string
  | BlobRewrite string string "nat option"
  | DocSet string string

datatype zip_error = BadZipFile | OtherZipError

datatype error = StorageError | NotFound

text \<open>
  What the collaborators do in one run and the code cannot decide: which calls raise, what
  \<open>zipfile\<close> decodes from a byte string (the regular files it writes, by path relative to the
  scratch directory), the content type an upload assigns, the continuation token each
  \<open>rewrite\<close> call returns, and the server's clock.
\<close>

record backend =
  download_fails :: "string \<Rightarrow> bool"
  unzip :: "string \<Rightarrow> zip_error + (string \<times> string) list"
  upload_fails :: "string \<Rightarrow> bool"
  guess_type :: "string \<Rightarrow> string"
  exists_fails :: "string \<Rightarrow> bool"
  list_fails :: "string \<Rightarrow> bool"
  rewrite :: "string \<Rightarrow> string \<Rightarrow> nat option \<Rightarrow> error + nat option"
  set_fails :: "string \<times> string \<Rightarrow> bool"
  server_time :: nat

record event =
  ev_bucket :: string
  ev_name :: string
  ev_content_type :: "string option"

section \<open>Routing (main.py, lines 44 to 63)\<close>

datatype routing =
    Skip_not_upload
  | Skip_intermediate
  | Eligible string string string

definition route :: "string \<Rightarrow> routing" where
  "route file_path =
     (let parts = split_on CHR ''/'' file_path
      in if \<not> prefix ''user/'' file_path \<or> length parts < 4 \<or> parts ! 2 \<noteq> ''uploads''
            \<or> \<not> suffix ''.zip'' (lower file_path)
         then Skip_not_upload
         else
           let user_id = parts ! 1;
               zip_filename = last parts;
               zip_name_base = fst (splitext zip_filename)
           in if parts ! 2 = ''extracted'' \<or> parts ! 2 = ''chats''
              then Skip_intermediate
              else Eligible user_id zip_filename zip_name_base)"

section \<open>Download and extraction (lines 65 to 95)\<close>

definition download_to_filename :: "backend \<Rightarrow> world \<Rightarrow> string \<Rightarrow> error + string" where
  "download_to_filename be w file_path =
     (if download_fails be file_path then Inl StorageError
      else case map_of (objects w) file_path of
             None \<Rightarrow> Inl NotFound
           | Some b \<Rightarrow> Inr (content b))"

text \<open>
  The scratch directory after \<open>extractall\<close>: the downloaded archive under its own name,
  then every decoded file written at its path, a later write replacing an earlier one.
\<close>

definition extractall :: "backend \<Rightarrow> string \<Rightarrow> string \<Rightarrow> zip_error + (string \<times> string) list" where
  "extractall be zip_filename data =
     (case unzip be data of
        Inl e \<Rightarrow> Inl e
      | Inr members \<Rightarrow> Inr (fold (\<lambda>(p, c). AList.update p c) members [(zip_filename, data)]))"

section \<open>Publishing (lines 97 to 119)\<close>

definition extracted_prefix :: "string \<Rightarrow> string \<Rightarrow> string" where
  "extracted_prefix user_id zip_name_base = ''user/'' @ user_id @ ''/extracted/'' @ zip_name_base @ ''/''"

definition chats_prefix :: "string \<Rightarrow> string \<Rightarrow> string" where
  "chats_prefix user_id zip_name_base = ''user/'' @ user_id @ ''/chats/'' @ zip_name_base @ ''/''"

text \<open>One pass of the loop body over a file of the walk.\<close>

definition upload_file ::
  "backend \<Rightarrow> string \<Rightarrow> string \<Rightarrow> string \<Rightarrow> string \<times> string \<Rightarrow> nat \<times> world \<times> call list
     \<Rightarrow> nat \<times> world \<times> call list" where
  "upload_file be user_id zip_name_base zip_filename f st =
     (case (f, st) of ((relative_path, data), (upload_count, w, cs)) \<Rightarrow>
        if basename relative_path = zip_filename then (upload_count, w, cs)
        else
          let destination_blob_name = extracted_prefix user_id zip_name_base @ relative_path
          in if upload_fails be destination_blob_name
             then (upload_count, w, cs @ [UploadFromFilename destination_blob_name])
             else (Suc upload_count,
                   w\<lparr>objects := AList.update destination_blob_name
                        \<lparr>content = data, content_type = guess_type be relative_path\<rparr> (objects w)\<rparr>,
                   cs @ [UploadFromFilename destination_blob_name]))"

definition upload_files ::
  "backend \<Rightarrow> string \<Rightarrow> string \<Rightarrow> string \<Rightarrow> (string \<times> string) list \<Rightarrow> world
     \<Rightarrow> nat \<times> world \<times> call list" where
  "upload_files be user_id zip_name_base zip_filename temp_dir w =
     fold (upload_file be user_id zip_name_base zip_filename) temp_dir (0, w, [])"

section \<open>Marker check, copy and cache (lines 121 to 161)\<close>

definition blob_exists :: "backend \<Rightarrow> world \<Rightarrow> string \<Rightarrow> error + bool" where
  "blob_exists be w n =
     (if exists_fails be n then Inl StorageError else Inr (map_of (objects w) n \<noteq> None))"

text \<open>
  \<open>list_blobs(prefix=...)\<close> gives the names of the objects under the prefix; the code does
  not depend on their order, which is here the order of the bucket's list.
\<close>

definition list_blobs :: "backend \<Rightarrow> world \<Rightarrow> string \<Rightarrow> error + string list" where
  "list_blobs be w pre =
     (if list_fails be pre then Inl StorageError
      else Inr (map fst (filter (\<lambda>(n, b). prefix pre n) (objects w))))"

text \<open>
  The \<open>while token is not None\<close> loop of lines 145 to 147. It ends only when the backend
  returns no token or raises; \<open>None\<close> is a loop that never ends.
\<close>

partial_function (option) rewrite_while ::
  "backend \<Rightarrow> string \<Rightarrow> string \<Rightarrow> nat option \<Rightarrow> call list \<Rightarrow> ((error + unit) \<times> call list) option" where
  "rewrite_while be src dst token cs =
     (case token of
        None \<Rightarrow> Some (Inr (), cs)
      | Some t \<Rightarrow>
          (case rewrite be src dst (Some t) of
             Inl e \<Rightarrow> Some (Inl e, cs @ [BlobRewrite src dst (Some t)])
           | Inr token' \<Rightarrow> rewrite_while be src dst token' (cs @ [BlobRewrite src dst (Some t)])))"

declare rewrite_while.simps [code]

text \<open>
  Lines 144 to 147 for one object: the first \<open>rewrite\<close> call carries no token, the loop
  passes each returned token back.
\<close>

definition rewrite_blob ::
  "backend \<Rightarrow> string \<Rightarrow> string \<Rightarrow> ((error + unit) \<times> call list) option" where
  "rewrite_blob be src dst =
     (case rewrite be src dst None of
        Inl e \<Rightarrow> Some (Inl e, [BlobRewrite src dst None])
      | Inr token \<Rightarrow> rewrite_while be src dst token [BlobRewrite src dst None])"

text \<open>
  The effect on the bucket: the destination is written when the last call returns no
  token, with the source's bytes and metadata; a source that is gone raises.
\<close>

definition copy_blob ::
  "backend \<Rightarrow> string \<Rightarrow> string \<Rightarrow> world \<Rightarrow> ((error + unit) \<times> world \<times> call list) option" where
  "copy_blob be src dst w =
     (case map_of (objects w) src of
        None \<Rightarrow> Some (Inl NotFound, w, [BlobRewrite src dst None])
      | Some b \<Rightarrow>
          (case rewrite_blob be src dst of
             None \<Rightarrow> None
           | Some (Inl e, cs) \<Rightarrow> Some (Inl e, w, cs)
           | Some (Inr u, cs) \<Rightarrow>
               Some (Inr (), w\<lparr>objects := AList.update dst b (objects w)\<rparr>, cs)))"

text \<open>The \<open>for blob in blobs_to_copy\<close> loop: an error of one copy leaves the loop.\<close>

fun copy_blobs ::
  "backend \<Rightarrow> string \<Rightarrow> string \<Rightarrow> string list \<Rightarrow> nat \<Rightarrow> world
     \<Rightarrow> ((error + nat) \<times> world \<times> call list) option" where
  "copy_blobs be source_prefix destination_prefix [] copy_count w = Some (Inr copy_count, w, [])"
| "copy_blobs be source_prefix destination_prefix (n # blobs) copy_count w =
     (let relative_blob_path = drop (length source_prefix) n;
          destination_blob_path = destination_prefix @ relative_blob_path
      in case copy_blob be n destination_blob_path w of
           None \<Rightarrow> None
         | Some (Inl e, w', cs) \<Rightarrow> Some (Inl e, w', cs)
         | Some (Inr u, w', cs) \<Rightarrow>
             (case copy_blobs be source_prefix destination_prefix blobs (Suc copy_count) w' of
                None \<Rightarrow> None
              | Some (r, w'', cs') \<Rightarrow> Some (r, w'', cs @ cs')))"

definition doc_set :: "backend \<Rightarrow> world \<Rightarrow> string \<Rightarrow> string \<Rightarrow> error + world" where
  "doc_set be w user_id zip_name_base =
     (if set_fails be (user_id, zip_name_base) then Inl StorageError
      else Inr (w\<lparr>cache := (cache w)((user_id, zip_name_base) \<mapsto> server_time be)\<rparr>))"

datatype outcome =
    Skipped
  | SkippedIntermediate
  | DownloadFailed
  | NotAZip
  | ExtractFailed
  | NoMarker
  | NoBlobs
  | Mirrored nat

datatype result = Returned outcome | Raised error

definition mirror ::
  "backend \<Rightarrow> string \<Rightarrow> string \<Rightarrow> world \<Rightarrow> (result \<times> world \<times> call list) option" where
  "mirror be user_id zip_name_base w =
     (let extracted_chat_file_path = extracted_prefix user_id zip_name_base @ ''_chat.txt''
      in case blob_exists be w extracted_chat_file_path of
           Inl e \<Rightarrow> Some (Raised e, w, [BlobExists extracted_chat_file_path])
         | Inr False \<Rightarrow> Some (Returned NoMarker, w, [BlobExists extracted_chat_file_path])
         | Inr True \<Rightarrow>
             (let source_prefix = extracted_prefix user_id zip_name_base;
                  destination_prefix = chats_prefix user_id zip_name_base;
                  cs0 = [BlobExists extracted_chat_file_path, ListBlobs source_prefix]
              in case list_blobs be w source_prefix of
                   Inl e \<Rightarrow> Some (Raised e, w, cs0)
                 | Inr blobs_to_copy \<Rightarrow>
                     if blobs_to_copy = [] then Some (Returned NoBlobs, w, cs0)
                     else
                       (case copy_blobs be source_prefix destination_prefix blobs_to_copy 0 w of
                          None \<Rightarrow> None
                        | Some (Inl e, w', cs) \<Rightarrow> Some (Raised e, w', cs0 @ cs)
                        | Some (Inr copy_count, w', cs) \<Rightarrow>
                            (case doc_set be w' user_id zip_name_base of
                               Inl e \<Rightarrow>
                                 Some (Raised e, w', cs0 @ cs @ [DocSet user_id zip_name_base])
                             | Inr w'' \<Rightarrow>
                                 Some (Returned (Mirrored copy_count), w'',
                                       cs0 @ cs @ [DocSet user_id zip_name_base])))))"

section \<open>The handler\<close>

text \<open>
  \<open>extract_zip\<close> for one event: the result (a return, or the exception that left the
  handler), the world afterwards and the calls made; \<open>None\<close> when a copy loop never ends.
  The scratch directory lives only inside the run and is no part of the world.
\<close>

definition extract_zip ::
  "backend \<Rightarrow> event \<Rightarrow> world \<Rightarrow> (result \<times> world \<times> call list) option" where
  "extract_zip be ev w =
     (let file_path = ev_name ev
      in case route file_path of
           Skip_not_upload \<Rightarrow> Some (Returned Skipped, w, [])
         | Skip_intermediate \<Rightarrow> Some (Returned SkippedIntermediate, w, [])
         | Eligible user_id zip_filename zip_name_base \<Rightarrow>
             (case download_to_filename be w file_path of
                Inl e \<Rightarrow> Some (Returned DownloadFailed, w, [DownloadToFilename file_path])
              | Inr data \<Rightarrow>
                  (case extractall be zip_filename data of
                     Inl BadZipFile \<Rightarrow> Some (Returned NotAZip, w, [DownloadToFilename file_path])
                   | Inl OtherZipError \<Rightarrow>
                       Some (Returned ExtractFailed, w, [DownloadToFilename file_path])
                   | Inr temp_dir \<Rightarrow>
                       (case upload_files be user_id zip_name_base zip_filename temp_dir w of
                          (upload_count, w', cs) \<Rightarrow>
                            (case mirror be user_id zip_name_base w' of
                               None \<Rightarrow> None
                             | Some (r, w'', cs') \<Rightarrow>
                                 Some (r, w'', DownloadToFilename file_path # cs @ cs'))))))"

section \<open>Continuation tokens\<close>

text \<open>
  The token the loop holds after \<open>n\<close> more passes, starting with \<open>token\<close>: what the backend
  answers along the way. It stays \<open>Inr None\<close> once the backend has returned no token.
\<close>

fun tokens_from :: "backend \<Rightarrow> string \<Rightarrow> string \<Rightarrow> nat option \<Rightarrow> nat \<Rightarrow> error + nat option" where
  "tokens_from be src dst token 0 = Inr token"
| "tokens_from be src dst token (Suc n) =
     (case token of
        None \<Rightarrow> Inr None
      | Some t \<Rightarrow>
          (case rewrite be src dst (Some t) of
             Inl e \<Rightarrow> Inl e
           | Inr token' \<Rightarrow> tokens_from be src dst token' n))"

text \<open>
  A sequence of calls is a completed chunked copy of one object when each call passes the
  token that the call before it returned, and the last call returned none.
\<close>

fun chained :: "backend \<Rightarrow> call list \<Rightarrow> bool" where
  "chained be [BlobRewrite s d t] = (rewrite be s d t = Inr None)"
| "chained be (BlobRewrite s d t # BlobRewrite s' d' t' # cs) =
     (s' = s \<and> d' = d \<and> t' \<noteq> None \<and> rewrite be s d t = Inr t'
      \<and> chained be (BlobRewrite s' d' t' # cs))"
| "chained be cs = False"

section \<open>Scenarios\<close>

text \<open>
  The run of section 8 of the specification: the archive \<open>backup.zip\<close> of user \<open>u1\<close>
  holding \<open>a.txt\<close>, \<open>sub/b.txt\<close> and \<open>_chat.txt\<close>, on a backend where no call raises and
  every copy takes two \<open>rewrite\<close> calls. Byte strings other than \<open>PK\<close> are no archive.
\<close>

definition scenario_backend :: backend where
  "scenario_backend =
     \<lparr>download_fails = (\<lambda>n. False),
      unzip = (\<lambda>d. if d = ''PK''
                   then Inr [(''a.txt'', ''A''), (''sub/b.txt'', ''B''), (''_chat.txt'', ''C'')]
                   else Inl BadZipFile),
      upload_fails = (\<lambda>n. False),
      guess_type = (\<lambda>p. ''text''),
      exists_fails = (\<lambda>n. False),
      list_fails = (\<lambda>n. False),
      rewrite = (\<lambda>src dst token. case token of None \<Rightarrow> Inr (Some 0) | Some t \<Rightarrow> Inr None),
      set_fails = (\<lambda>k. False),
      server_time = 7\<rparr>"

definition scenario_world :: world where
  "scenario_world =
     \<lparr>objects = [(''user/u1/uploads/backup.zip'', \<lparr>content = ''PK'', content_type = ''zip''\<rparr>)],
      cache = Map.empty\<rparr>"

definition corrupt_world :: world where
  "corrupt_world =
     \<lparr>objects = [(''user/u1/uploads/backup.zip'', \<lparr>content = ''XX'', content_type = ''zip''\<rparr>)],
      cache = Map.empty\<rparr>"

definition scenario_event :: event where
  "scenario_event =
     \<lparr>ev_bucket = ''bucket'', ev_name = ''user/u1/uploads/backup.zip'',
      ev_content_type = Some ''zip''\<rparr>"

definition loop_event :: event where
  "loop_event =
     \<lparr>ev_bucket = ''bucket'', ev_name = ''user/u1/extracted/backup/a.txt'',
      ev_content_type = None\<rparr>"

definition scenario_temp_dir :: "(string \<times> string) list" where
  "scenario_temp_dir =
     [(''backup.zip'', ''PK''), (''a.txt'', ''A''), (''sub/b.txt'', ''B''), (''_chat.txt'', ''C'')]"

definition scenario_published :: world where
  "scenario_published =
     \<lparr>objects =
        [(''user/u1/uploads/backup.zip'', \<lparr>content = ''PK'', content_type = ''zip''\<rparr>),
         (''user/u1/extracted/backup/a.txt'', \<lparr>content = ''A'', content_type = ''text''\<rparr>),
         (''user/u1/extracted/backup/sub/b.txt'', \<lparr>content = ''B'', content_type = ''text''\<rparr>),
         (''user/u1/extracted/backup/_chat.txt'', \<lparr>content = ''C'', content_type = ''text''\<rparr>)],
      cache = Map.empty\<rparr>"

definition scenario_uploads :: "call list" where
  "scenario_uploads =
     [UploadFromFilename ''user/u1/extracted/backup/a.txt'',
      UploadFromFilename ''user/u1/extracted/backup/sub/b.txt'',
      UploadFromFilename ''user/u1/extracted/backup/_chat.txt'']"



definition plain_backend :: backend where
  "plain_backend =
     scenario_backend\<lparr>unzip := (\<lambda>d. if d = ''PK''
                                    then Inr [(''a.txt'', ''A''), (''sub/b.txt'', ''B'')]
                                    else Inl BadZipFile)\<rparr>"

definition plain_temp_dir :: "(string \<times> string) list" where
  "plain_temp_dir = [(''backup.zip'', ''PK''), (''a.txt'', ''A''), (''sub/b.txt'', ''B'')]"

definition plain_published :: world where
  "plain_published =
     \<lparr>objects =
        [(''user/u1/uploads/backup.zip'', \<lparr>content = ''PK'', content_type = ''zip''\<rparr>),
         (''user/u1/extracted/backup/a.txt'', \<lparr>content = ''A'', content_type = ''text''\<rparr>),
         (''user/u1/extracted/backup/sub/b.txt'', \<lparr>content = ''B'', content_type = ''text''\<rparr>)],
      cache = Map.empty\<rparr>"

definition plain_uploads :: "call list" where
  "plain_uploads =
     [UploadFromFilename ''user/u1/extracted/backup/a.txt'',
      UploadFromFilename ''user/u1/extracted/backup/sub/b.txt'']"

definition scenario_blobs :: "string list" where
  "scenario_blobs =
     [''user/u1/extracted/backup/a.txt'', ''user/u1/extracted/backup/sub/b.txt'',
      ''user/u1/extracted/backup/_chat.txt'']"

definition scenario_copies :: "call list" where
  "scenario_copies =
     [BlobRewrite ''user/u1/extracted/backup/a.txt'' ''user/u1/chats/backup/a.txt'' None,
      BlobRewrite ''user/u1/extracted/backup/a.txt'' ''user/u1/chats/backup/a.txt'' (Some 0),
      BlobRewrite ''user/u1/extracted/backup/sub/b.txt'' ''user/u1/chats/backup/sub/b.txt'' None,
      BlobRewrite ''user/u1/extracted/backup/sub/b.txt'' ''user/u1/chats/backup/sub/b.txt'' (Some 0),
      BlobRewrite ''user/u1/extracted/backup/_chat.txt'' ''user/u1/chats/backup/_chat.txt'' None,
      BlobRewrite ''user/u1/extracted/backup/_chat.txt'' ''user/u1/chats/backup/_chat.txt'' (Some 0)]"

definition scenario_mirrored :: world where
  "scenario_mirrored =
     \<lparr>objects =
        [(''user/u1/uploads/backup.zip'', \<lparr>content = ''PK'', content_type = ''zip''\<rparr>),
         (''user/u1/extracted/backup/a.txt'', \<lparr>content = ''A'', content_type = ''text''\<rparr>),
         (''user/u1/extracted/backup/sub/b.txt'', \<lparr>content = ''B'', content_type = ''text''\<rparr>),
         (''user/u1/extracted/backup/_chat.txt'', \<lparr>content = ''C'', content_type = ''text''\<rparr>),
         (''user/u1/chats/backup/a.txt'', \<lparr>content = ''A'', content_type = ''text''\<rparr>),
         (''user/u1/chats/backup/sub/b.txt'', \<lparr>content = ''B'', content_type = ''text''\<rparr>),
         (''user/u1/chats/backup/_chat.txt'', \<lparr>content = ''C'', content_type = ''text''\<rparr>)],
      cache = [(''u1'', ''backup'') \<mapsto> 7]\<rparr>"

definition broken_backend :: backend where
  "broken_backend =
     scenario_backend\<lparr>rewrite := (\<lambda>src dst token.
        if src = ''user/u1/extracted/backup/sub/b.txt'' then Inl StorageError
        else rewrite scenario_backend src dst token)\<rparr>"

definition broken_mirrored :: world where
  "broken_mirrored =
     \<lparr>objects =
        [(''user/u1/uploads/backup.zip'', \<lparr>content = ''PK'', content_type = ''zip''\<rparr>),
         (''user/u1/extracted/backup/a.txt'', \<lparr>content = ''A'', content_type = ''text''\<rparr>),
         (''user/u1/extracted/backup/sub/b.txt'', \<lparr>content = ''B'', content_type = ''text''\<rparr>),
         (''user/u1/extracted/backup/_chat.txt'', \<lparr>content = ''C'', content_type = ''text''\<rparr>),
         (''user/u1/chats/backup/a.txt'', \<lparr>content = ''A'', content_type = ''text''\<rparr>)],
      cache = Map.empty\<rparr>"

definition broken_copies :: "call list" where
  "broken_copies =
     [BlobRewrite ''user/u1/extracted/backup/a.txt'' ''user/u1/chats/backup/a.txt'' None,
      BlobRewrite ''user/u1/extracted/backup/a.txt'' ''user/u1/chats/backup/a.txt'' (Some 0),
      BlobRewrite ''user/u1/extracted/backup/sub/b.txt'' ''user/u1/chats/backup/sub/b.txt'' None]"

section \<open>Routing\<close>

lemma scenario_route:
  "route (ev_name scenario_event) = Eligible ''u1'' ''backup.zip'' ''backup''"
  by code_simp

text \<open>
  Claim C2. The run goes past routing exactly for the keys that start with \<open>user/\<close>, have
  at least four segments, the third being \<open>uploads\<close>, and end in \<open>.zip\<close> whatever the case.
  For every other key the handler returns at once: the world is unchanged and no
  collaborator is called. For an eligible key the first call is the download.
\<close>

theorem routing_eligible_iff:
  "((\<exists>user_id zip_filename zip_name_base.
        route (ev_name ev) = Eligible user_id zip_filename zip_name_base)
     = (prefix ''user/'' (ev_name ev) \<and> 4 \<le> length (split_on CHR ''/'' (ev_name ev))
          \<and> split_on CHR ''/'' (ev_name ev) ! 2 = ''uploads''
          \<and> suffix ''.zip'' (lower (ev_name ev))))
   \<and> (\<not> (prefix ''user/'' (ev_name ev) \<and> 4 \<le> length (split_on CHR ''/'' (ev_name ev))
          \<and> split_on CHR ''/'' (ev_name ev) ! 2 = ''uploads''
          \<and> suffix ''.zip'' (lower (ev_name ev)))
        \<longrightarrow> extract_zip be ev w = Some (Returned Skipped, w, []))
   \<and> ((prefix ''user/'' (ev_name ev) \<and> 4 \<le> length (split_on CHR ''/'' (ev_name ev))
          \<and> split_on CHR ''/'' (ev_name ev) ! 2 = ''uploads''
          \<and> suffix ''.zip'' (lower (ev_name ev)))
        \<longrightarrow> (case extract_zip be ev w of
               None \<Rightarrow> True
             | Some (r, w', cs) \<Rightarrow> cs \<noteq> [] \<and> hd cs = DownloadToFilename (ev_name ev)))"
  by (auto simp: route_def extract_zip_def Let_def
           split: sum.splits zip_error.splits option.splits prod.splits)

theorem routing_eligible_iff_witness:
  "\<not> (prefix ''user/'' (ev_name loop_event) \<and> 4 \<le> length (split_on CHR ''/'' (ev_name loop_event))
        \<and> split_on CHR ''/'' (ev_name loop_event) ! 2 = ''uploads''
        \<and> suffix ''.zip'' (lower (ev_name loop_event)))
   \<and> extract_zip scenario_backend loop_event scenario_world = Some (Returned Skipped, scenario_world, [])
   \<and> (prefix ''user/'' (ev_name scenario_event)
        \<and> 4 \<le> length (split_on CHR ''/'' (ev_name scenario_event))
        \<and> split_on CHR ''/'' (ev_name scenario_event) ! 2 = ''uploads''
        \<and> suffix ''.zip'' (lower (ev_name scenario_event)))"
proof -
  have skip: "\<not> (prefix ''user/'' (ev_name loop_event)
        \<and> 4 \<le> length (split_on CHR ''/'' (ev_name loop_event))
        \<and> split_on CHR ''/'' (ev_name loop_event) ! 2 = ''uploads''
        \<and> suffix ''.zip'' (lower (ev_name loop_event)))"
    by code_simp
  have pass: "prefix ''user/'' (ev_name scenario_event)
        \<and> 4 \<le> length (split_on CHR ''/'' (ev_name scenario_event))
        \<and> split_on CHR ''/'' (ev_name scenario_event) ! 2 = ''uploads''
        \<and> suffix ''.zip'' (lower (ev_name scenario_event))"
    by code_simp
  from routing_eligible_iff [of loop_event scenario_backend scenario_world] skip
  have "extract_zip scenario_backend loop_event scenario_world
          = Some (Returned Skipped, scenario_world, [])"
    by blast
  with skip pass show ?thesis by blast
qed

text \<open>
  Claim C10. The second check of the third segment (lines 61 to 63) is never the one that
  skips: a key that passed line 45 has \<open>uploads\<close> there, so neither the router nor the
  handler ever answers with the intermediate-directory skip.
\<close>

theorem loop_prevention_unreachable:
  "route file_path \<noteq> Skip_intermediate
   \<and> extract_zip be ev w \<noteq> Some (Returned SkippedIntermediate, w', cs)"
  by (auto simp: route_def extract_zip_def Let_def mirror_def
           split: sum.splits zip_error.splits option.splits prod.splits bool.splits if_splits)

theorem loop_prevention_unreachable_witness:
  "route (ev_name scenario_event) = Eligible ''u1'' ''backup.zip'' ''backup''
   \<and> route (ev_name scenario_event) \<noteq> Skip_intermediate
   \<and> route (ev_name loop_event) = Skip_not_upload
   \<and> route (ev_name loop_event) \<noteq> Skip_intermediate"
proof -
  have "route (ev_name loop_event) = Skip_not_upload"
    by code_simp
  with scenario_route
    loop_prevention_unreachable [of "ev_name scenario_event" scenario_backend scenario_event
      scenario_world scenario_world "[]"]
    loop_prevention_unreachable [of "ev_name loop_event" scenario_backend scenario_event
      scenario_world scenario_world "[]"]
  show ?thesis by blast
qed

section \<open>Corrupt archives\<close>

text \<open>
  Claim C7. At an eligible key whose bytes were downloaded, a byte stream that
  \<open>zipfile\<close> rejects ends the run: with \<open>BadZipFile\<close> and with any other decode failure
  alike, the handler returns, the bucket and the cache are as before, and the download is
  the only call made, so nothing is published, mirrored or cached.
\<close>

theorem corrupt_archive_terminal:
  assumes "route (ev_name ev) = Eligible user_id zip_filename zip_name_base"
    and "download_to_filename be w (ev_name ev) = Inr data"
    and "unzip be data = Inl e"
  shows "extract_zip be ev w =
           Some (Returned (case e of BadZipFile \<Rightarrow> NotAZip | OtherZipError \<Rightarrow> ExtractFailed),
                 w, [DownloadToFilename (ev_name ev)])"
  using assms by (simp add: extract_zip_def extractall_def split: zip_error.splits)

theorem corrupt_archive_terminal_witness:
  "route (ev_name scenario_event) = Eligible ''u1'' ''backup.zip'' ''backup''
   \<and> download_to_filename scenario_backend corrupt_world (ev_name scenario_event) = Inr ''XX''
   \<and> unzip scenario_backend ''XX'' = Inl BadZipFile
   \<and> extract_zip scenario_backend scenario_event corrupt_world =
       Some (Returned NotAZip, corrupt_world, [DownloadToFilename (ev_name scenario_event)])"
proof -
  have d: "download_to_filename scenario_backend corrupt_world (ev_name scenario_event) = Inr ''XX''"
    by (simp add: download_to_filename_def scenario_backend_def corrupt_world_def scenario_event_def)
  have u: "unzip scenario_backend ''XX'' = Inl BadZipFile"
    by (simp add: scenario_backend_def)
  from corrupt_archive_terminal [OF scenario_route d u] scenario_route d u
  show ?thesis by simp
qed

section \<open>Publishing\<close>

lemma split_on_nonempty: "split_on sep s \<noteq> []"
  by (induction s) (auto simp: Let_def)

lemma upload_file_step:
  "upload_file be u b zf (p, d) (n, w, cs) =
     (if basename p = zf then (n, w, cs)
      else if upload_fails be (extracted_prefix u b @ p)
           then (n, w, cs @ [UploadFromFilename (extracted_prefix u b @ p)])
           else (Suc n,
                 w\<lparr>objects := AList.update (extracted_prefix u b @ p)
                      \<lparr>content = d, content_type = guess_type be p\<rparr> (objects w)\<rparr>,
                 cs @ [UploadFromFilename (extracted_prefix u b @ p)]))"
  by (simp add: upload_file_def Let_def)

lemma upload_files_fold:
  "fold (upload_file be u b zf) fs (n, w, cs) =
     (n + length (filter (\<lambda>(p, d). basename p \<noteq> zf \<and> \<not> upload_fails be (extracted_prefix u b @ p)) fs),
      w\<lparr>objects := fold (\<lambda>(p, d). AList.update (extracted_prefix u b @ p)
                          \<lparr>content = d, content_type = guess_type be p\<rparr>)
                   (filter (\<lambda>(p, d). basename p \<noteq> zf \<and> \<not> upload_fails be (extracted_prefix u b @ p)) fs)
                   (objects w)\<rparr>,
      cs @ map (\<lambda>(p, d). UploadFromFilename (extracted_prefix u b @ p))
             (filter (\<lambda>(p, d). basename p \<noteq> zf) fs))"
proof (induction fs arbitrary: n w cs)
  case Nil
  show ?case by simp
next
  case (Cons f fs)
  obtain p d where f: "f = (p, d)" by (cases f)
  show ?case
    by (simp add: f upload_file_step Cons.IH)
qed

lemma map_of_fold_update:
  "map_of (fold (\<lambda>(k, v). AList.update (g k) (h k v)) kvs al) x =
     (case map_of (map (\<lambda>(k, v). (g k, h k v)) (rev kvs)) x of
        None \<Rightarrow> map_of al x
      | Some y \<Rightarrow> Some y)"
proof (induction kvs arbitrary: al)
  case Nil
  show ?case by simp
next
  case (Cons kv kvs)
  obtain k v where kv: "kv = (k, v)" by (cases kv)
  show ?case
    by (auto simp: kv Cons.IH update_conv' map_add_def map_of_append split: option.splits)
qed

lemma distinct_fold_update:
  "distinct (map fst al) \<Longrightarrow> distinct (map fst (fold (\<lambda>(p, c). AList.update p c) ms al))"
  by (induction ms arbitrary: al) (auto simp: distinct_update)

lemma extractall_distinct:
  "extractall be zf data = Inr temp_dir \<Longrightarrow> distinct (map fst temp_dir)"
  by (auto simp: extractall_def distinct_fold_update split: sum.splits)


lemma upload_files_result:
  "upload_files be u b zf fs w =
     (length (filter (\<lambda>(p, d). basename p \<noteq> zf \<and> \<not> upload_fails be (extracted_prefix u b @ p)) fs),
      w\<lparr>objects := fold (\<lambda>(p, d). AList.update (extracted_prefix u b @ p)
                          \<lparr>content = d, content_type = guess_type be p\<rparr>)
                   (filter (\<lambda>(p, d). basename p \<noteq> zf \<and> \<not> upload_fails be (extracted_prefix u b @ p)) fs)
                   (objects w)\<rparr>,
      map (\<lambda>(p, d). UploadFromFilename (extracted_prefix u b @ p))
        (filter (\<lambda>(p, d). basename p \<noteq> zf) fs))"
  by (simp add: upload_files_def upload_files_fold)

lemma upload_files_cache:
  "upload_files be u b zf fs w = (n, w', cs) \<Longrightarrow> cache w' = cache w"
  by (auto simp: upload_files_result)

lemma upload_files_untouched:
  assumes "upload_files be u b zf fs w = (n, w', cs)"
    and "\<forall>(p, d) \<in> set fs. basename p \<noteq> zf \<and> \<not> upload_fails be (extracted_prefix u b @ p)
           \<longrightarrow> x \<noteq> extracted_prefix u b @ p"
  shows "map_of (objects w') x = map_of (objects w) x"
proof -
  have "map_of (map (\<lambda>(p, d). (extracted_prefix u b @ p, \<lparr>content = d, content_type = guess_type be p\<rparr>))
          (rev (filter (\<lambda>(p, d). basename p \<noteq> zf \<and> \<not> upload_fails be (extracted_prefix u b @ p)) fs))) x = None"
    using assms(2) by (auto simp: map_of_eq_None_iff image_iff)
  then show ?thesis
    using assms(1) by (auto simp: upload_files_result map_of_fold_update)
qed

lemma upload_files_outside:
  assumes "upload_files be u b zf fs w = (n, w', cs)"
    and "\<not> prefix (extracted_prefix u b) x"
  shows "map_of (objects w') x = map_of (objects w) x"
  using assms(1)
proof (rule upload_files_untouched)
  show "\<forall>(p, d) \<in> set fs. basename p \<noteq> zf \<and> \<not> upload_fails be (extracted_prefix u b @ p)
           \<longrightarrow> x \<noteq> extracted_prefix u b @ p"
    using assms(2) by auto
qed

lemma upload_files_published:
  assumes "upload_files be u b zf fs w = (n, w', cs)"
    and "distinct (map fst fs)"
    and "(p, d) \<in> set fs"
    and "basename p \<noteq> zf"
    and "\<not> upload_fails be (extracted_prefix u b @ p)"
  shows "map_of (objects w') (extracted_prefix u b @ p)
           = Some \<lparr>content = d, content_type = guess_type be p\<rparr>"
proof -
  let ?pub = "filter (\<lambda>(p, d). basename p \<noteq> zf \<and> \<not> upload_fails be (extracted_prefix u b @ p)) fs"
  let ?kvs = "map (\<lambda>(p, d). (extracted_prefix u b @ p, \<lparr>content = d, content_type = guess_type be p\<rparr>)) (rev ?pub)"
  have "distinct (map fst ?pub)"
    using assms(2) by (simp add: distinct_map_filter)
  then have "distinct (map fst (rev ?pub))"
    by (simp add: rev_map [symmetric] del: rev_filter)
  moreover have "map fst ?kvs = map (\<lambda>p. extracted_prefix u b @ p) (map fst (rev ?pub))"
    by (simp add: case_prod_unfold comp_def)
  ultimately have dk: "distinct (map fst ?kvs)"
    by (simp only: distinct_map) (auto simp: inj_on_def)
  have "(extracted_prefix u b @ p, \<lparr>content = d, content_type = guess_type be p\<rparr>) \<in> set ?kvs"
    using assms(3-5) by force
  with dk have "map_of ?kvs (extracted_prefix u b @ p)
                  = Some \<lparr>content = d, content_type = guess_type be p\<rparr>"
    by (simp only: map_of_eq_Some_iff)
  then show ?thesis
    using assms(1) by (auto simp: upload_files_result map_of_fold_update)
qed


lemma splitext_append: "fst (splitext p) @ snd (splitext p) = p"
  by (simp add: splitext_def Let_def)

lemma route_Eligible:
  assumes "route k = Eligible u zf b"
  shows "u = split_on CHR ''/'' k ! 1" and "zf = last (split_on CHR ''/'' k)"
    and "b = fst (splitext zf)"
  using assms by (auto simp: route_def Let_def split: if_splits)

lemma extract_zip_published:
  assumes "route (ev_name ev) = Eligible u zf b"
    and "download_to_filename be w (ev_name ev) = Inr data"
    and "extractall be zf data = Inr temp_dir"
    and "upload_files be u b zf temp_dir w = (n, w', cs)"
  shows "extract_zip be ev w =
           (case mirror be u b w' of
              None \<Rightarrow> None
            | Some (r, w'', cs') \<Rightarrow> Some (r, w'', DownloadToFilename (ev_name ev) # cs @ cs'))"
  using assms by (simp add: extract_zip_def)

lemma mirror_no_marker:
  assumes "map_of (objects w) (extracted_prefix u b @ ''_chat.txt'') = None"
  shows "mirror be u b w =
           Some (if exists_fails be (extracted_prefix u b @ ''_chat.txt'')
                 then Raised StorageError else Returned NoMarker,
                 w, [BlobExists (extracted_prefix u b @ ''_chat.txt'')])"
  using assms by (simp add: mirror_def blob_exists_def)

lemma prefixes_apart:
  assumes "prefix (extracted_prefix u b) x"
  shows "\<not> prefix (chats_prefix u b') x"
proof
  assume "prefix (chats_prefix u b') x"
  then obtain zs where c: "x = ''user/'' @ u @ ''/chats/'' @ b' @ ''/'' @ zs"
    by (auto simp: prefix_def chats_prefix_def)
  from assms obtain ys where e: "x = ''user/'' @ u @ ''/extracted/'' @ b @ ''/'' @ ys"
    by (auto simp: prefix_def extracted_prefix_def)
  from c e show False by simp
qed

text \<open>
  Claim C3. For a decoded archive at an eligible key, \<open>user_id\<close> is segment 1 of the key,
  the base name is the last segment without the extension \<open>splitext\<close> finds, and every file
  of the scratch directory whose file name is not the archive's own is uploaded with its
  bytes to \<open>user/{user_id}/extracted/{base}/{relative path}\<close> (the object is there unless
  that one upload raised). A file named like the archive is not uploaded: no call is made
  for it and the object at its destination is as before.
\<close>

theorem published_at_destination:
  assumes "route (ev_name ev) = Eligible user_id zip_filename zip_name_base"
    and "download_to_filename be w (ev_name ev) = Inr data"
    and "extractall be zip_filename data = Inr temp_dir"
    and "upload_files be user_id zip_name_base zip_filename temp_dir w = (upload_count, w', cs)"
  shows "user_id = split_on CHR ''/'' (ev_name ev) ! 1
     \<and> zip_filename = last (split_on CHR ''/'' (ev_name ev))
     \<and> zip_name_base @ snd (splitext zip_filename) = zip_filename
     \<and> (\<forall>(relative_path, bytes) \<in> set temp_dir.
          basename relative_path \<noteq> zip_filename
          \<and> \<not> upload_fails be (''user/'' @ user_id @ ''/extracted/'' @ zip_name_base @ ''/'' @ relative_path)
          \<longrightarrow> map_of (objects w')
                 (''user/'' @ user_id @ ''/extracted/'' @ zip_name_base @ ''/'' @ relative_path)
               = Some \<lparr>content = bytes, content_type = guess_type be relative_path\<rparr>)
     \<and> (\<forall>(relative_path, bytes) \<in> set temp_dir.
          basename relative_path = zip_filename
          \<longrightarrow> UploadFromFilename
                 (''user/'' @ user_id @ ''/extracted/'' @ zip_name_base @ ''/'' @ relative_path)
                 \<notin> set cs
              \<and> map_of (objects w')
                  (''user/'' @ user_id @ ''/extracted/'' @ zip_name_base @ ''/'' @ relative_path)
                = map_of (objects w)
                    (''user/'' @ user_id @ ''/extracted/'' @ zip_name_base @ ''/'' @ relative_path))
     \<and> extract_zip be ev w =
          (case mirror be user_id zip_name_base w' of
             None \<Rightarrow> None
           | Some (r, w'', cs') \<Rightarrow> Some (r, w'', DownloadToFilename (ev_name ev) # cs @ cs'))"
proof -
  have pre: "''user/'' @ user_id @ ''/extracted/'' @ zip_name_base @ ''/'' @ p
               = extracted_prefix user_id zip_name_base @ p" for p
    by (simp add: extracted_prefix_def)
  have names: "user_id = split_on CHR ''/'' (ev_name ev) ! 1
     \<and> zip_filename = last (split_on CHR ''/'' (ev_name ev))
     \<and> zip_name_base @ snd (splitext zip_filename) = zip_filename"
    using route_Eligible [OF assms(1)] splitext_append [of zip_filename] by simp
  have dist: "distinct (map fst temp_dir)"
    using assms(3) by (rule extractall_distinct)
  have pub: "\<forall>(relative_path, bytes) \<in> set temp_dir.
          basename relative_path \<noteq> zip_filename
          \<and> \<not> upload_fails be (extracted_prefix user_id zip_name_base @ relative_path)
          \<longrightarrow> map_of (objects w') (extracted_prefix user_id zip_name_base @ relative_path)
               = Some \<lparr>content = bytes, content_type = guess_type be relative_path\<rparr>"
    using upload_files_published [OF assms(4) dist] by blast
  have excl1: "UploadFromFilename (extracted_prefix user_id zip_name_base @ p) \<notin> set cs"
    if "basename p = zip_filename" for p
    using assms(4) that by (auto simp: upload_files_result)
  have excl2: "map_of (objects w') (extracted_prefix user_id zip_name_base @ p)
            = map_of (objects w) (extracted_prefix user_id zip_name_base @ p)"
    if b: "basename p = zip_filename" for p
    using assms(4)
  proof (rule upload_files_untouched)
    show "\<forall>(q, d) \<in> set temp_dir. basename q \<noteq> zip_filename
            \<and> \<not> upload_fails be (extracted_prefix user_id zip_name_base @ q)
            \<longrightarrow> extracted_prefix user_id zip_name_base @ p \<noteq> extracted_prefix user_id zip_name_base @ q"
      using b by auto
  qed
  have excl: "\<forall>(relative_path, bytes) \<in> set temp_dir.
          basename relative_path = zip_filename
          \<longrightarrow> UploadFromFilename (extracted_prefix user_id zip_name_base @ relative_path) \<notin> set cs
              \<and> map_of (objects w') (extracted_prefix user_id zip_name_base @ relative_path)
                = map_of (objects w) (extracted_prefix user_id zip_name_base @ relative_path)"
    using excl1 excl2 by blast
  from names pub excl extract_zip_published [OF assms]
  show ?thesis unfolding pre by blast
qed

lemma scenario_download:
  "download_to_filename scenario_backend scenario_world (ev_name scenario_event) = Inr ''PK''"
  by (simp add: download_to_filename_def scenario_backend_def scenario_world_def scenario_event_def)

lemma scenario_extractall:
  "extractall scenario_backend ''backup.zip'' ''PK'' = Inr scenario_temp_dir"
  by (simp add: extractall_def scenario_backend_def scenario_temp_dir_def)

lemma scenario_basenames:
  "basename ''backup.zip'' = ''backup.zip''" "basename ''a.txt'' = ''a.txt''"
  "basename ''sub/b.txt'' = ''b.txt''" "basename ''_chat.txt'' = ''_chat.txt''"
  by (simp_all add: basename_def)

lemma scenario_upload_files:
  "upload_files scenario_backend ''u1'' ''backup'' ''backup.zip'' scenario_temp_dir scenario_world
     = (3, scenario_published, scenario_uploads)"
  by (simp add: upload_files_def upload_file_step scenario_temp_dir_def scenario_basenames
        scenario_backend_def scenario_world_def scenario_published_def scenario_uploads_def
        extracted_prefix_def)

theorem published_at_destination_witness:
  "route (ev_name scenario_event) = Eligible ''u1'' ''backup.zip'' ''backup''
   \<and> download_to_filename scenario_backend scenario_world (ev_name scenario_event) = Inr ''PK''
   \<and> extractall scenario_backend ''backup.zip'' ''PK'' = Inr scenario_temp_dir
   \<and> upload_files scenario_backend ''u1'' ''backup'' ''backup.zip'' scenario_temp_dir scenario_world
        = (3, scenario_published, scenario_uploads)
   \<and> map_of (objects scenario_published) ''user/u1/extracted/backup/sub/b.txt''
        = Some \<lparr>content = ''B'', content_type = ''text''\<rparr>
   \<and> UploadFromFilename ''user/u1/extracted/backup/backup.zip'' \<notin> set scenario_uploads
   \<and> map_of (objects scenario_published) ''user/u1/extracted/backup/backup.zip''
        = map_of (objects scenario_world) ''user/u1/extracted/backup/backup.zip''"
proof -
  note t = published_at_destination [OF scenario_route scenario_download scenario_extractall
             scenario_upload_files]
  have f: "\<not> upload_fails scenario_backend n" for n
    by (simp add: scenario_backend_def)
  note pub = t [THEN conjunct2, THEN conjunct2, THEN conjunct2, THEN conjunct1]
  note excl = t [THEN conjunct2, THEN conjunct2, THEN conjunct2, THEN conjunct2, THEN conjunct1]
  from pub have "map_of (objects scenario_published) ''user/u1/extracted/backup/sub/b.txt''
        = Some \<lparr>content = ''B'', content_type = guess_type scenario_backend ''sub/b.txt''\<rparr>"
    by (simp add: scenario_temp_dir_def scenario_basenames f)
  moreover from excl have "UploadFromFilename ''user/u1/extracted/backup/backup.zip'' \<notin> set scenario_uploads
     \<and> map_of (objects scenario_published) ''user/u1/extracted/backup/backup.zip''
        = map_of (objects scenario_world) ''user/u1/extracted/backup/backup.zip''"
    by (simp add: scenario_temp_dir_def scenario_basenames)
  ultimately show ?thesis
    using scenario_route scenario_download scenario_extractall scenario_upload_files
    by (simp add: scenario_backend_def)
qed







text \<open>
  Claim C5. When \<open>_chat.txt\<close> is not under the extracted prefix after the uploads, the run
  ends at the marker check: the calls are the download, the uploads (all to names under the
  extracted prefix) and the existence check, so there is no copy and no cache write; every
  object outside the extracted prefix, those under \<open>chats/\<close> among them, is as before the
  run, and so is the cache.
\<close>

theorem marker_absent_no_mirror:
  assumes "route (ev_name ev) = Eligible user_id zip_filename zip_name_base"
    and "download_to_filename be w (ev_name ev) = Inr data"
    and "extractall be zip_filename data = Inr temp_dir"
    and "upload_files be user_id zip_name_base zip_filename temp_dir w = (upload_count, w', cs)"
    and "map_of (objects w') (extracted_prefix user_id zip_name_base @ ''_chat.txt'') = None"
  shows "extract_zip be ev w =
           Some (if exists_fails be (extracted_prefix user_id zip_name_base @ ''_chat.txt'')
                 then Raised StorageError else Returned NoMarker,
                 w',
                 DownloadToFilename (ev_name ev) # cs
                   @ [BlobExists (extracted_prefix user_id zip_name_base @ ''_chat.txt'')])
     \<and> (\<forall>c \<in> set cs. \<exists>n. c = UploadFromFilename n \<and> prefix (extracted_prefix user_id zip_name_base) n)
     \<and> (\<forall>k. \<not> prefix (extracted_prefix user_id zip_name_base) k
            \<longrightarrow> map_of (objects w') k = map_of (objects w) k)
     \<and> (\<forall>k. prefix (chats_prefix user_id zip_name_base) k
            \<longrightarrow> map_of (objects w') k = map_of (objects w) k)
     \<and> cache w' = cache w"
proof -
  have run: "extract_zip be ev w =
           Some (if exists_fails be (extracted_prefix user_id zip_name_base @ ''_chat.txt'')
                 then Raised StorageError else Returned NoMarker,
                 w',
                 DownloadToFilename (ev_name ev) # cs
                   @ [BlobExists (extracted_prefix user_id zip_name_base @ ''_chat.txt'')])"
    by (simp add: extract_zip_published [OF assms(1-4)] mirror_no_marker [OF assms(5)])
  have calls: "\<forall>c \<in> set cs. \<exists>n. c = UploadFromFilename n
                 \<and> prefix (extracted_prefix user_id zip_name_base) n"
    using assms(4) by (auto simp: upload_files_result)
  have out: "\<forall>k. \<not> prefix (extracted_prefix user_id zip_name_base) k
            \<longrightarrow> map_of (objects w') k = map_of (objects w) k"
    using upload_files_outside [OF assms(4)] by blast
  have chats: "\<forall>k. prefix (chats_prefix user_id zip_name_base) k
            \<longrightarrow> map_of (objects w') k = map_of (objects w) k"
    using out prefixes_apart by blast
  from run calls out chats upload_files_cache [OF assms(4)] show ?thesis by blast
qed

lemma plain_download:
  "download_to_filename plain_backend scenario_world (ev_name scenario_event) = Inr ''PK''"
  by (simp add: download_to_filename_def plain_backend_def scenario_backend_def
        scenario_world_def scenario_event_def)

lemma plain_extractall:
  "extractall plain_backend ''backup.zip'' ''PK'' = Inr plain_temp_dir"
  by (simp add: extractall_def plain_backend_def scenario_backend_def plain_temp_dir_def)

lemma plain_upload_files:
  "upload_files plain_backend ''u1'' ''backup'' ''backup.zip'' plain_temp_dir scenario_world
     = (2, plain_published, plain_uploads)"
  by (simp add: upload_files_def upload_file_step plain_temp_dir_def scenario_basenames
        plain_backend_def scenario_backend_def scenario_world_def plain_published_def
        plain_uploads_def extracted_prefix_def)

lemma plain_no_marker:
  "map_of (objects plain_published) (extracted_prefix ''u1'' ''backup'' @ ''_chat.txt'') = None"
  by (simp add: plain_published_def extracted_prefix_def)

theorem marker_absent_no_mirror_witness:
  "route (ev_name scenario_event) = Eligible ''u1'' ''backup.zip'' ''backup''
   \<and> download_to_filename plain_backend scenario_world (ev_name scenario_event) = Inr ''PK''
   \<and> extractall plain_backend ''backup.zip'' ''PK'' = Inr plain_temp_dir
   \<and> upload_files plain_backend ''u1'' ''backup'' ''backup.zip'' plain_temp_dir scenario_world
        = (2, plain_published, plain_uploads)
   \<and> map_of (objects plain_published) (extracted_prefix ''u1'' ''backup'' @ ''_chat.txt'') = None
   \<and> extract_zip plain_backend scenario_event scenario_world =
        Some (Returned NoMarker, plain_published,
              DownloadToFilename ''user/u1/uploads/backup.zip'' # plain_uploads
                @ [BlobExists ''user/u1/extracted/backup/_chat.txt''])
   \<and> map_of (objects plain_published) ''user/u1/chats/backup/a.txt'' = None
   \<and> cache plain_published (''u1'', ''backup'') = None"
proof -
  note t = marker_absent_no_mirror [OF scenario_route plain_download plain_extractall
             plain_upload_files plain_no_marker]
  have e: "\<not> exists_fails plain_backend n" for n
    by (simp add: plain_backend_def scenario_backend_def)
  have "prefix (chats_prefix ''u1'' ''backup'') ''user/u1/chats/backup/a.txt''"
    by (simp add: chats_prefix_def)
  with t have "map_of (objects plain_published) ''user/u1/chats/backup/a.txt''
                 = map_of (objects scenario_world) ''user/u1/chats/backup/a.txt''"
    by blast
  moreover from t have "cache plain_published = cache scenario_world"
    by blast
  moreover from t e have "extract_zip plain_backend scenario_event scenario_world =
        Some (Returned NoMarker, plain_published,
              DownloadToFilename (ev_name scenario_event) # plain_uploads
                @ [BlobExists (extracted_prefix ''u1'' ''backup'' @ ''_chat.txt'')])"
    by simp
  ultimately show ?thesis
    using scenario_route plain_download plain_extractall plain_upload_files plain_no_marker
    by (simp add: scenario_world_def scenario_event_def extracted_prefix_def)
qed

section \<open>Chunked copy\<close>

lemma rewrite_while_None [simp]:
  "rewrite_while be src dst None cs = Some (Inr (), cs)"
  by (subst rewrite_while.simps) simp

lemma rewrite_while_Some [simp]:
  "rewrite_while be src dst (Some t) cs =
     (case rewrite be src dst (Some t) of
        Inl e \<Rightarrow> Some (Inl e, cs @ [BlobRewrite src dst (Some t)])
      | Inr token' \<Rightarrow> rewrite_while be src dst token' (cs @ [BlobRewrite src dst (Some t)]))"
  by (subst rewrite_while.simps) simp

lemma rewrite_while_completes:
  assumes "tokens_from be src dst token n = Inr None"
    and "rewrite be src dst tprev = Inr token"
  shows "\<exists>ext. rewrite_while be src dst token cs = Some (Inr (), cs @ ext)
           \<and> chained be (BlobRewrite src dst tprev # ext)"
  using assms
proof (induction n arbitrary: token cs tprev)
  case 0
  then show ?case by simp
next
  case (Suc n)
  show ?case
  proof (cases token)
    case None
    with Suc.prems show ?thesis by simp
  next
    case (Some t)
    with Suc.prems(1) obtain token' where r: "rewrite be src dst (Some t) = Inr token'"
      and n: "tokens_from be src dst token' n = Inr None"
      by (auto split: sum.splits)
    from Suc.IH [OF n r, of "cs @ [BlobRewrite src dst (Some t)]"]
    obtain ext where e: "rewrite_while be src dst token' (cs @ [BlobRewrite src dst (Some t)])
                           = Some (Inr (), cs @ [BlobRewrite src dst (Some t)] @ ext)"
      and c: "chained be (BlobRewrite src dst (Some t) # ext)"
      by auto
    have "rewrite_while be src dst token cs = Some (Inr (), cs @ BlobRewrite src dst (Some t) # ext)"
      using Some r e by simp
    moreover have "chained be (BlobRewrite src dst tprev # BlobRewrite src dst (Some t) # ext)"
      using c Suc.prems(2) Some by simp
    ultimately show ?thesis by blast
  qed
qed

lemma rewrite_blob_completes:
  assumes "rewrite be src dst None = Inr token"
    and "tokens_from be src dst token n = Inr None"
  shows "\<exists>cs. rewrite_blob be src dst = Some (Inr (), cs) \<and> chained be cs"
proof -
  from rewrite_while_completes [OF assms(2) assms(1), of "[BlobRewrite src dst None]"]
  show ?thesis using assms(1) by (auto simp: rewrite_blob_def)
qed

lemma copy_blob_completes:
  assumes "map_of (objects w) src = Some b"
    and "rewrite be src dst None = Inr token"
    and "tokens_from be src dst token n = Inr None"
  shows "\<exists>cs. copy_blob be src dst w
                = Some (Inr (), w\<lparr>objects := AList.update dst b (objects w)\<rparr>, cs)
              \<and> chained be cs \<and> hd cs = BlobRewrite src dst None"
proof -
  from rewrite_while_completes [OF assms(3) assms(2), of "[BlobRewrite src dst None]"]
  obtain ext where "rewrite_blob be src dst = Some (Inr (), BlobRewrite src dst None # ext)"
    and "chained be (BlobRewrite src dst None # ext)"
    using assms(2) by (auto simp: rewrite_blob_def)
  then show ?thesis
    using assms(1) by (simp add: copy_blob_def)
qed

lemma copy_blobs_complete:
  assumes "\<forall>x \<in> set blobs. map_of (objects w) x \<noteq> None"
    and "\<forall>x \<in> set blobs. \<exists>token n.
           rewrite be x (dp @ drop (length sp) x) None = Inr token
           \<and> tokens_from be x (dp @ drop (length sp) x) token n = Inr None"
  shows "\<exists>w' css. copy_blobs be sp dp blobs cnt w
                    = Some (Inr (cnt + length blobs), w', concat css)
           \<and> list_all2 (\<lambda>x cs. chained be cs \<and> hd cs = BlobRewrite x (dp @ drop (length sp) x) None)
                blobs css"
  using assms
proof (induction blobs arbitrary: cnt w)
  case Nil
  show ?case by (rule exI [of _ w], rule exI [of _ "[]"]) simp
next
  case (Cons x blobs)
  let ?dst = "dp @ drop (length sp) x"
  from Cons.prems(1) obtain b where b: "map_of (objects w) x = Some b" by auto
  from Cons.prems(2) obtain token n where t: "rewrite be x ?dst None = Inr token"
    and n: "tokens_from be x ?dst token n = Inr None"
    by auto
  let ?w1 = "w\<lparr>objects := AList.update ?dst b (objects w)\<rparr>"
  from copy_blob_completes [OF b t n] obtain cs where
    c: "copy_blob be x ?dst w = Some (Inr (), ?w1, cs)" and
    ch: "chained be cs" and h: "hd cs = BlobRewrite x ?dst None"
    by blast
  have src: "\<forall>y \<in> set blobs. map_of (objects ?w1) y \<noteq> None"
    using Cons.prems(1) by (simp add: update_conv')
  have tok: "\<forall>y \<in> set blobs. \<exists>token n.
           rewrite be y (dp @ drop (length sp) y) None = Inr token
           \<and> tokens_from be y (dp @ drop (length sp) y) token n = Inr None"
    using Cons.prems(2) by simp
  from Cons.IH [OF src tok, of "Suc cnt"] obtain w' css where
    r: "copy_blobs be sp dp blobs (Suc cnt) ?w1 = Some (Inr (Suc cnt + length blobs), w', concat css)"
    and l: "list_all2 (\<lambda>x cs. chained be cs \<and> hd cs = BlobRewrite x (dp @ drop (length sp) x) None)
              blobs css"
    by blast
  have "copy_blobs be sp dp (x # blobs) cnt w
          = Some (Inr (cnt + length (x # blobs)), w', concat (cs # css))"
    using c r by (simp add: Let_def)
  moreover have "list_all2 (\<lambda>x cs. chained be cs \<and> hd cs = BlobRewrite x (dp @ drop (length sp) x) None)
                   (x # blobs) (cs # css)"
    using ch h l by simp
  ultimately show ?case by blast
qed

text \<open>
  Claim C9. For one object whose source exists: when the tokens the backend returns
  reach none after some number of calls, the copy of the object returns without error, the
  destination then holds the source's bytes and metadata, and the \<open>rewrite\<close> calls made form
  a chain: the first carries no token, each later one the token returned just before, and
  only the last one returned none. For the loop over objects under the same precondition
  for each: it ends, every object is counted, and the calls are the complete chains of the
  objects one after the other, so an object's chain is finished before the next begins.
\<close>

theorem chunked_copy_completes:
  "(map_of (objects w) src = Some b \<and> rewrite be src dst None = Inr token
      \<and> tokens_from be src dst token n = Inr None
     \<longrightarrow> (\<exists>cs. copy_blob be src dst w
                  = Some (Inr (), w\<lparr>objects := AList.update dst b (objects w)\<rparr>, cs)
               \<and> chained be cs \<and> hd cs = BlobRewrite src dst None))
   \<and> ((\<forall>x \<in> set blobs. map_of (objects w) x \<noteq> None
          \<and> (\<exists>token n. rewrite be x (destination_prefix @ drop (length source_prefix) x) None
                          = Inr token
                \<and> tokens_from be x (destination_prefix @ drop (length source_prefix) x) token n
                    = Inr None))
     \<longrightarrow> (\<exists>w' css. copy_blobs be source_prefix destination_prefix blobs copy_count w
                      = Some (Inr (copy_count + length blobs), w', concat css)
               \<and> list_all2 (\<lambda>x cs. chained be cs
                     \<and> hd cs = BlobRewrite x (destination_prefix @ drop (length source_prefix) x) None)
                   blobs css))"
proof (intro conjI impI)
  assume "map_of (objects w) src = Some b \<and> rewrite be src dst None = Inr token
      \<and> tokens_from be src dst token n = Inr None"
  then show "\<exists>cs. copy_blob be src dst w
                  = Some (Inr (), w\<lparr>objects := AList.update dst b (objects w)\<rparr>, cs)
               \<and> chained be cs \<and> hd cs = BlobRewrite src dst None"
    using copy_blob_completes [of w src b be dst token n] by simp
next
  assume a: "\<forall>x \<in> set blobs. map_of (objects w) x \<noteq> None
          \<and> (\<exists>token n. rewrite be x (destination_prefix @ drop (length source_prefix) x) None
                          = Inr token
                \<and> tokens_from be x (destination_prefix @ drop (length source_prefix) x) token n
                    = Inr None)"
  show "\<exists>w' css. copy_blobs be source_prefix destination_prefix blobs copy_count w
                      = Some (Inr (copy_count + length blobs), w', concat css)
               \<and> list_all2 (\<lambda>x cs. chained be cs
                     \<and> hd cs = BlobRewrite x (destination_prefix @ drop (length source_prefix) x) None)
                   blobs css"
  proof (rule copy_blobs_complete)
    show "\<forall>x \<in> set blobs. map_of (objects w) x \<noteq> None"
      using a by simp
    show "\<forall>x \<in> set blobs. \<exists>token n.
           rewrite be x (destination_prefix @ drop (length source_prefix) x) None = Inr token
           \<and> tokens_from be x (destination_prefix @ drop (length source_prefix) x) token n = Inr None"
      using a by simp
  qed
qed

lemma scenario_tokens:
  "rewrite scenario_backend src dst None = Inr (Some 0)"
  "tokens_from scenario_backend src dst (Some 0) (Suc 0) = Inr None"
  by (simp_all add: scenario_backend_def)

theorem chunked_copy_completes_witness:
  "map_of (objects scenario_published) ''user/u1/extracted/backup/_chat.txt''
       = Some \<lparr>content = ''C'', content_type = ''text''\<rparr>
   \<and> rewrite scenario_backend ''user/u1/extracted/backup/_chat.txt''
         ''user/u1/chats/backup/_chat.txt'' None = Inr (Some 0)
   \<and> tokens_from scenario_backend ''user/u1/extracted/backup/_chat.txt''
         ''user/u1/chats/backup/_chat.txt'' (Some 0) (Suc 0) = Inr None
   \<and> (\<exists>cs. copy_blob scenario_backend ''user/u1/extracted/backup/_chat.txt''
               ''user/u1/chats/backup/_chat.txt'' scenario_published
             = Some (Inr (),
                     scenario_published\<lparr>objects :=
                       AList.update ''user/u1/chats/backup/_chat.txt''
                         \<lparr>content = ''C'', content_type = ''text''\<rparr> (objects scenario_published)\<rparr>,
                     cs)
          \<and> chained scenario_backend cs)
   \<and> list_all (\<lambda>x. map_of (objects scenario_published) x \<noteq> None) scenario_blobs
   \<and> (\<exists>w' css. copy_blobs scenario_backend ''user/u1/extracted/backup/'' ''user/u1/chats/backup/''
                  scenario_blobs 0 scenario_published
                = Some (Inr 3, w', concat css))"
proof -
  note t = chunked_copy_completes [of scenario_published "''user/u1/extracted/backup/_chat.txt''"
      "\<lparr>content = ''C'', content_type = ''text''\<rparr>" scenario_backend
      "''user/u1/chats/backup/_chat.txt''" "Some 0" "Suc 0" scenario_blobs
      "''user/u1/chats/backup/''" "''user/u1/extracted/backup/''" 0]
  have m: "map_of (objects scenario_published) ''user/u1/extracted/backup/_chat.txt''
       = Some \<lparr>content = ''C'', content_type = ''text''\<rparr>"
    by (simp add: scenario_published_def)
  have one: "map_of (objects scenario_published) ''user/u1/extracted/backup/_chat.txt''
       = Some \<lparr>content = ''C'', content_type = ''text''\<rparr>
   \<and> rewrite scenario_backend ''user/u1/extracted/backup/_chat.txt''
         ''user/u1/chats/backup/_chat.txt'' None = Inr (Some 0)
   \<and> tokens_from scenario_backend ''user/u1/extracted/backup/_chat.txt''
         ''user/u1/chats/backup/_chat.txt'' (Some 0) (Suc 0) = Inr None"
    using m scenario_tokens by simp
  have src: "\<forall>x \<in> set scenario_blobs. map_of (objects scenario_published) x \<noteq> None"
    by (simp add: scenario_blobs_def scenario_published_def)
  have every: "\<forall>x \<in> set scenario_blobs. map_of (objects scenario_published) x \<noteq> None
          \<and> (\<exists>token n. rewrite scenario_backend x
                           (''user/u1/chats/backup/'' @ drop (length ''user/u1/extracted/backup/'') x) None
                          = Inr token
                \<and> tokens_from scenario_backend x
                    (''user/u1/chats/backup/'' @ drop (length ''user/u1/extracted/backup/'') x) token n
                    = Inr None)"
    using src scenario_tokens by blast
  from t [THEN conjunct1, THEN mp, OF one]
  have a: "\<exists>cs. copy_blob scenario_backend ''user/u1/extracted/backup/_chat.txt''
               ''user/u1/chats/backup/_chat.txt'' scenario_published
             = Some (Inr (),
                     scenario_published\<lparr>objects :=
                       AList.update ''user/u1/chats/backup/_chat.txt''
                         \<lparr>content = ''C'', content_type = ''text''\<rparr> (objects scenario_published)\<rparr>,
                     cs)
          \<and> chained scenario_backend cs"
    by blast
  from t [THEN conjunct2, THEN mp, OF every]
  have b: "\<exists>w' css. copy_blobs scenario_backend ''user/u1/extracted/backup/'' ''user/u1/chats/backup/''
                  scenario_blobs 0 scenario_published
                = Some (Inr 3, w', concat css)"
    by (auto simp: scenario_blobs_def)
  have l: "list_all (\<lambda>x. map_of (objects scenario_published) x \<noteq> None) scenario_blobs"
    using src by (simp add: list_all_iff)
  from one l a b show ?thesis by blast
qed

section \<open>Copy loop\<close>

lemma rewrite_while_calls_aux:
  assumes "rewrite_while be src dst token cs = Some y"
  shows "\<exists>ext. snd y = cs @ ext \<and> (\<forall>c \<in> set ext. \<exists>t. c = BlobRewrite src dst t)"
proof (rule rewrite_while.raw_induct [OF _ assms], goal_cases)
  case (1 rw be src dst token cs y)
  show ?case
  proof (cases token)
    case None
    with 1(2) show ?thesis by auto
  next
    case (Some t)
    show ?thesis
    proof (cases "rewrite be src dst (Some t)")
      case (Inl e)
      with 1(2) Some show ?thesis by auto
    next
      case (Inr token')
      with 1(2) Some
      have "rw be src dst token' (cs @ [BlobRewrite src dst (Some t)]) = Some y"
        by simp
      from 1(1) [OF this] show ?thesis by auto
    qed
  qed
qed

lemma rewrite_blob_calls:
  assumes "rewrite_blob be src dst = Some (r, cs)"
  shows "\<forall>c \<in> set cs. \<exists>t. c = BlobRewrite src dst t"
proof (cases "rewrite be src dst None")
  case (Inl e)
  with assms show ?thesis by (auto simp: rewrite_blob_def)
next
  case (Inr token)
  with assms have "rewrite_while be src dst token [BlobRewrite src dst None] = Some (r, cs)"
    by (simp add: rewrite_blob_def)
  from rewrite_while_calls_aux [OF this] show ?thesis by auto
qed

lemma copy_blob_Inr:
  assumes "copy_blob be src dst w = Some (Inr u, w', cs)"
  shows "\<exists>b. map_of (objects w) src = Some b
           \<and> w' = w\<lparr>objects := AList.update dst b (objects w)\<rparr>
           \<and> rewrite_blob be src dst = Some (Inr (), cs)"
  using assms
  by (auto simp: copy_blob_def split: option.splits sum.splits prod.splits)

lemma copy_blob_Inl:
  assumes "copy_blob be src dst w = Some (Inl e, w', cs)"
  shows "w' = w"
  using assms
  by (auto simp: copy_blob_def split: option.splits sum.splits prod.splits)

lemma copy_blob_calls:
  assumes "copy_blob be src dst w = Some (r, w', cs)"
  shows "\<forall>c \<in> set cs. \<exists>t. c = BlobRewrite src dst t"
  using assms rewrite_blob_calls [of be src dst]
  by (auto simp: copy_blob_def split: option.splits sum.splits prod.splits)

lemma copy_blobs_calls:
  assumes "copy_blobs be sp dp blobs cnt w = Some (r, w', cs)"
  shows "\<forall>c \<in> set cs. \<exists>s d t. c = BlobRewrite s d t"
  using assms
proof (induction blobs arbitrary: cnt w r w' cs)
  case Nil
  then show ?case by simp
next
  case (Cons x blobs)
  let ?dst = "dp @ drop (length sp) x"
  from Cons.prems obtain r1 w1 cs1 where c: "copy_blob be x ?dst w = Some (r1, w1, cs1)"
    by (auto simp: Let_def split: option.splits)
  show ?case
  proof (cases r1)
    case (Inl e)
    with Cons.prems c have "cs = cs1" by (simp add: Let_def)
    with copy_blob_calls [OF c] show ?thesis by blast
  next
    case (Inr u)
    with Cons.prems c obtain cs2 where
      r: "copy_blobs be sp dp blobs (Suc cnt) w1 = Some (r, w', cs2)" and cs: "cs = cs1 @ cs2"
      by (auto simp: Let_def split: option.splits)
    from Cons.IH [OF r] copy_blob_calls [OF c] cs show ?thesis by auto
  qed
qed

lemma copy_blobs_frame:
  assumes "copy_blobs be sp dp blobs cnt w = Some (r, w', cs)"
  shows "cache w' = cache w
     \<and> (\<forall>k. k \<notin> (\<lambda>x. dp @ drop (length sp) x) ` set blobs
            \<longrightarrow> map_of (objects w') k = map_of (objects w) k)
     \<and> (\<forall>k. map_of (objects w) k \<noteq> None \<longrightarrow> map_of (objects w') k \<noteq> None)"
  using assms
proof (induction blobs arbitrary: cnt w r w' cs)
  case Nil
  then show ?case by simp
next
  case (Cons x blobs)
  let ?dst = "dp @ drop (length sp) x"
  from Cons.prems obtain r1 w1 cs1 where c: "copy_blob be x ?dst w = Some (r1, w1, cs1)"
    by (auto simp: Let_def split: option.splits)
  show ?case
  proof (cases r1)
    case (Inl e)
    with Cons.prems c have "w' = w1" by (simp add: Let_def)
    with copy_blob_Inl c Inl show ?thesis by blast
  next
    case (Inr u)
    with Cons.prems c obtain cs2 where
      r: "copy_blobs be sp dp blobs (Suc cnt) w1 = Some (r, w', cs2)"
      by (auto simp: Let_def split: option.splits)
    from copy_blob_Inr c Inr obtain b where
      w1: "w1 = w\<lparr>objects := AList.update ?dst b (objects w)\<rparr>"
      by blast
    from Cons.IH [OF r] show ?thesis
      by (simp add: w1 update_conv')
  qed
qed

lemma destination_inj:
  assumes "prefix sp x" and "prefix sp y"
    and "dp @ drop (length sp) x = dp @ drop (length sp) y"
  shows "x = y"
proof -
  from assms(1) obtain xs where x: "x = sp @ xs" by (auto simp: prefix_def)
  from assms(2) obtain ys where y: "y = sp @ ys" by (auto simp: prefix_def)
  from assms(3) x y show ?thesis by simp
qed

lemma copy_blobs_success:
  assumes "copy_blobs be sp dp blobs cnt w = Some (Inr n, w', cs)"
    and "\<forall>x \<in> set blobs. prefix sp x"
    and "\<forall>k. prefix sp k \<longrightarrow> \<not> prefix dp k"
  shows "n = cnt + length blobs
     \<and> (\<forall>x \<in> set blobs. map_of (objects w) x \<noteq> None
           \<and> map_of (objects w') (dp @ drop (length sp) x) = map_of (objects w) x
           \<and> BlobRewrite x (dp @ drop (length sp) x) None \<in> set cs)"
  using assms(1,2)
proof (induction blobs arbitrary: cnt w cs)
  case Nil
  then show ?case by simp
next
  case (Cons x blobs)
  let ?dst = "\<lambda>x. dp @ drop (length sp) x"
  from Cons.prems(1) obtain r1 w1 cs1 where c: "copy_blob be x (?dst x) w = Some (r1, w1, cs1)"
    by (auto simp: Let_def split: option.splits)
  from Cons.prems(1) c obtain u where r1: "r1 = Inr u"
    by (cases r1) (auto simp: Let_def)
  from Cons.prems(1) c r1 obtain cs2 where
    r: "copy_blobs be sp dp blobs (Suc cnt) w1 = Some (Inr n, w', cs2)" and cs: "cs = cs1 @ cs2"
    by (auto simp: Let_def split: option.splits)
  from copy_blob_Inr c r1 obtain b where b: "map_of (objects w) x = Some b"
    and w1: "w1 = w\<lparr>objects := AList.update (?dst x) b (objects w)\<rparr>"
    and rb: "rewrite_blob be x (?dst x) = Some (Inr (), cs1)"
    by blast
  have px: "prefix sp x" and pb: "\<forall>y \<in> set blobs. prefix sp y"
    using Cons.prems(2) by simp_all
  from Cons.IH [OF r pb] have n: "n = Suc cnt + length blobs"
    and ih: "\<forall>y \<in> set blobs. map_of (objects w1) y \<noteq> None
               \<and> map_of (objects w') (?dst y) = map_of (objects w1) y
               \<and> BlobRewrite y (?dst y) None \<in> set cs2"
    by simp_all
  have same: "map_of (objects w1) y = map_of (objects w) y" if "prefix sp y" for y
  proof -
    from that assms(3) have "\<not> prefix dp y" by blast
    then have "y \<noteq> ?dst x" by auto
    then show ?thesis by (simp add: w1 update_conv')
  qed
  have rest: "\<forall>y \<in> set blobs. map_of (objects w) y \<noteq> None
               \<and> map_of (objects w') (?dst y) = map_of (objects w) y
               \<and> BlobRewrite y (?dst y) None \<in> set cs"
    using ih same pb cs by auto
  have first_call: "BlobRewrite x (?dst x) None \<in> set cs"
  proof -
    from rb have "cs1 \<noteq> [] \<and> hd cs1 = BlobRewrite x (?dst x) None"
    proof (cases "rewrite be x (?dst x) None")
      case (Inl e)
      with rb show ?thesis by (simp add: rewrite_blob_def)
    next
      case (Inr token)
      with rb have "rewrite_while be x (?dst x) token [BlobRewrite x (?dst x) None] = Some (Inr (), cs1)"
        by (simp add: rewrite_blob_def)
      from rewrite_while_calls_aux [OF this] show ?thesis by auto
    qed
    then have "BlobRewrite x (?dst x) None \<in> set cs1"
      by (metis list.set_sel(1))
    with cs show ?thesis by simp
  qed
  have head: "map_of (objects w') (?dst x) = map_of (objects w) x"
  proof (cases "x \<in> set blobs")
    case True
    with rest show ?thesis by blast
  next
    case False
    have "?dst x \<notin> ?dst ` set blobs"
    proof
      assume "?dst x \<in> ?dst ` set blobs"
      then obtain y where y: "y \<in> set blobs" and e: "?dst x = ?dst y" by auto
      from destination_inj [OF px _ e] y pb have "x = y" by blast
      with y False show False by simp
    qed
    with copy_blobs_frame [OF r] have "map_of (objects w') (?dst x) = map_of (objects w1) (?dst x)"
      by blast
    with b show ?thesis by (simp add: w1 update_conv')
  qed
  from n b head first_call rest show ?case by simp
qed

lemma copy_blobs_abort:
  assumes "copy_blobs be sp dp blobs cnt w = Some (Inl e, w', cs)"
  shows "\<exists>pre x post cs_pre cs_x.
           blobs = pre @ x # post
           \<and> copy_blobs be sp dp pre cnt w = Some (Inr (cnt + length pre), w', cs_pre)
           \<and> copy_blob be x (dp @ drop (length sp) x) w' = Some (Inl e, w', cs_x)
           \<and> cs = cs_pre @ cs_x"
  using assms
proof (induction blobs arbitrary: cnt w cs)
  case Nil
  then show ?case by simp
next
  case (Cons x blobs)
  let ?dst = "\<lambda>x. dp @ drop (length sp) x"
  from Cons.prems obtain r1 w1 cs1 where c: "copy_blob be x (?dst x) w = Some (r1, w1, cs1)"
    by (auto simp: Let_def split: option.splits)
  show ?case
  proof (cases r1)
    case (Inl e1)
    with Cons.prems c have eq: "e1 = e" "w' = w1" "cs = cs1" by (simp_all add: Let_def)
    from copy_blob_Inl c Inl have "w1 = w" by blast
    with c Inl eq have "x # blobs = [] @ x # blobs
           \<and> copy_blobs be sp dp [] cnt w = Some (Inr (cnt + length ([] :: string list)), w', [])
           \<and> copy_blob be x (?dst x) w' = Some (Inl e, w', cs1)
           \<and> cs = [] @ cs1"
      by simp
    then show ?thesis by blast
  next
    case (Inr u)
    with Cons.prems c obtain cs2 where
      r: "copy_blobs be sp dp blobs (Suc cnt) w1 = Some (Inl e, w', cs2)" and cs: "cs = cs1 @ cs2"
      by (auto simp: Let_def split: option.splits)
    from Cons.IH [OF r] obtain pre y post cs_pre cs_y where
      d: "blobs = pre @ y # post"
      and p: "copy_blobs be sp dp pre (Suc cnt) w1 = Some (Inr (Suc cnt + length pre), w', cs_pre)"
      and f: "copy_blob be y (?dst y) w' = Some (Inl e, w', cs_y)"
      and e: "cs2 = cs_pre @ cs_y"
      by blast
    have "x # blobs = (x # pre) @ y # post
           \<and> copy_blobs be sp dp (x # pre) cnt w
               = Some (Inr (cnt + length (x # pre)), w', cs1 @ cs_pre)
           \<and> copy_blob be y (?dst y) w' = Some (Inl e, w', cs_y)
           \<and> cs = (cs1 @ cs_pre) @ cs_y"
      using d p f e cs c Inr by (simp add: Let_def)
    then show ?thesis by blast
  qed
qed

section \<open>Mirroring\<close>

lemma marker_listed:
  assumes "map_of (objects w) (extracted_prefix u b @ ''_chat.txt'') \<noteq> None"
  shows "map fst (filter (\<lambda>(n, b'). prefix (extracted_prefix u b) n) (objects w)) \<noteq> []"
proof -
  from assms obtain v where "(extracted_prefix u b @ ''_chat.txt'', v) \<in> set (objects w)"
    by (auto dest: map_of_SomeD)
  moreover have "prefix (extracted_prefix u b) (extracted_prefix u b @ ''_chat.txt'')"
    by simp
  ultimately have "\<exists>x \<in> set (objects w). case x of (n, b') \<Rightarrow> prefix (extracted_prefix u b) n"
    by (intro bexI [of _ "(extracted_prefix u b @ ''_chat.txt'', v)"]) simp_all
  then show ?thesis by (simp add: filter_empty_conv)
qed

lemma mirror_marker:
  assumes "map_of (objects w) (extracted_prefix u b @ ''_chat.txt'') \<noteq> None"
    and "\<not> exists_fails be (extracted_prefix u b @ ''_chat.txt'')"
    and "\<not> list_fails be (extracted_prefix u b)"
  shows "mirror be u b w =
     (case copy_blobs be (extracted_prefix u b) (chats_prefix u b)
             (map fst (filter (\<lambda>(n, b'). prefix (extracted_prefix u b) n) (objects w))) 0 w of
        None \<Rightarrow> None
      | Some (Inl e, w', cs) \<Rightarrow>
          Some (Raised e, w',
                [BlobExists (extracted_prefix u b @ ''_chat.txt''), ListBlobs (extracted_prefix u b)] @ cs)
      | Some (Inr copy_count, w', cs) \<Rightarrow>
          (case doc_set be w' u b of
             Inl e \<Rightarrow>
               Some (Raised e, w',
                     [BlobExists (extracted_prefix u b @ ''_chat.txt''), ListBlobs (extracted_prefix u b)]
                       @ cs @ [DocSet u b])
           | Inr w'' \<Rightarrow>
               Some (Returned (Mirrored copy_count), w'',
                     [BlobExists (extracted_prefix u b @ ''_chat.txt''), ListBlobs (extracted_prefix u b)]
                       @ cs @ [DocSet u b])))"
  using assms marker_listed [OF assms(1)]
  by (simp add: mirror_def blob_exists_def list_blobs_def Let_def)


lemma scenario_copy_blobs:
  "copy_blobs scenario_backend ''user/u1/extracted/backup/'' ''user/u1/chats/backup/''
     scenario_blobs 0 scenario_published
   = Some (Inr 3, scenario_mirrored\<lparr>cache := Map.empty\<rparr>, scenario_copies)"
  by (simp add: scenario_blobs_def scenario_published_def scenario_mirrored_def scenario_copies_def
        copy_blob_def rewrite_blob_def scenario_backend_def Let_def)

lemma scenario_mirror:
  "mirror scenario_backend ''u1'' ''backup'' scenario_published
   = Some (Returned (Mirrored 3), scenario_mirrored,
           [BlobExists ''user/u1/extracted/backup/_chat.txt'', ListBlobs ''user/u1/extracted/backup/'']
             @ scenario_copies @ [DocSet ''u1'' ''backup''])"
proof -
  have l: "list_blobs scenario_backend scenario_published ''user/u1/extracted/backup/''
             = Inr scenario_blobs"
    by (simp add: list_blobs_def scenario_backend_def scenario_published_def scenario_blobs_def)
  have e: "blob_exists scenario_backend scenario_published ''user/u1/extracted/backup/_chat.txt''
             = Inr True"
    by (simp add: blob_exists_def scenario_backend_def scenario_published_def)
  have n: "scenario_blobs \<noteq> []"
    by (simp add: scenario_blobs_def)
  have d: "doc_set scenario_backend (scenario_mirrored\<lparr>cache := Map.empty\<rparr>) ''u1'' ''backup''
             = Inr scenario_mirrored"
    by (simp add: doc_set_def scenario_backend_def scenario_mirrored_def)
  have p: "extracted_prefix ''u1'' ''backup'' = ''user/u1/extracted/backup/''"
    "chats_prefix ''u1'' ''backup'' = ''user/u1/chats/backup/''"
    by (simp_all add: extracted_prefix_def chats_prefix_def)
  show ?thesis
    unfolding mirror_def p
    by (simp add: Let_def e l n scenario_copy_blobs d)
qed

lemma scenario_run:
  "extract_zip scenario_backend scenario_event scenario_world
   = Some (Returned (Mirrored 3), scenario_mirrored,
           DownloadToFilename ''user/u1/uploads/backup.zip'' # scenario_uploads
             @ [BlobExists ''user/u1/extracted/backup/_chat.txt'', ListBlobs ''user/u1/extracted/backup/'']
             @ scenario_copies @ [DocSet ''u1'' ''backup''])"
  by (simp add: extract_zip_published [OF scenario_route scenario_download scenario_extractall
        scenario_upload_files] scenario_mirror)
    (simp add: scenario_event_def)




section \<open>Copy errors\<close>

lemma list_blobs_prefix:
  assumes "list_blobs be w sp = Inr blobs"
  shows "\<forall>x \<in> set blobs. prefix sp x"
  using assms by (auto simp: list_blobs_def split: if_splits)

lemma mirror_doc_set:
  assumes "mirror be u b w = Some (r, w'', cs)"
    and "DocSet u b \<in> set cs"
  shows "\<exists>blobs wc copies.
           list_blobs be w (extracted_prefix u b) = Inr blobs
           \<and> copy_blobs be (extracted_prefix u b) (chats_prefix u b) blobs 0 w
               = Some (Inr (length blobs), wc, copies)
           \<and> cs = [BlobExists (extracted_prefix u b @ ''_chat.txt''), ListBlobs (extracted_prefix u b)]
                    @ copies @ [DocSet u b]"
proof -
  let ?sp = "extracted_prefix u b" and ?dp = "chats_prefix u b"
  let ?cs0 = "[BlobExists (?sp @ ''_chat.txt''), ListBlobs ?sp]"
  from assms have ex: "blob_exists be w (?sp @ ''_chat.txt'') = Inr True"
    by (auto simp: mirror_def Let_def split: sum.splits bool.splits)
  from assms ex obtain blobs where l: "list_blobs be w ?sp = Inr blobs" and ne: "blobs \<noteq> []"
    by (auto simp: mirror_def Let_def split: sum.splits if_splits)
  from assms(1) ex l ne obtain rc wc copies where
    c: "copy_blobs be ?sp ?dp blobs 0 w = Some (rc, wc, copies)"
    by (auto simp: mirror_def Let_def split: option.splits)
  have no: "DocSet u b \<notin> set copies"
    using copy_blobs_calls [OF c] by auto
  show ?thesis
  proof (cases rc)
    case (Inl e)
    with assms(1) ex l ne c have "cs = ?cs0 @ copies"
      by (simp add: mirror_def Let_def)
    with assms(2) no show ?thesis by simp
  next
    case (Inr n)
    have apart: "\<forall>k. prefix ?sp k \<longrightarrow> \<not> prefix ?dp k"
      using prefixes_apart by blast
    from c Inr have c': "copy_blobs be ?sp ?dp blobs 0 w = Some (Inr n, wc, copies)"
      by simp
    from copy_blobs_success [OF c' list_blobs_prefix [OF l] apart]
    have n: "n = length blobs" by simp
    from assms(1) ex l ne c Inr have "cs = ?cs0 @ copies @ [DocSet u b]"
      by (auto simp: mirror_def Let_def split: sum.splits)
    with l c Inr n show ?thesis by blast
  qed
qed

lemma mirror_copy_error:
  assumes "blob_exists be w (extracted_prefix u b @ ''_chat.txt'') = Inr True"
    and "list_blobs be w (extracted_prefix u b) = Inr blobs"
    and "copy_blobs be (extracted_prefix u b) (chats_prefix u b) blobs 0 w = Some (Inl e, wc, copies)"
  shows "mirror be u b w =
           Some (Raised e, wc,
                 [BlobExists (extracted_prefix u b @ ''_chat.txt''), ListBlobs (extracted_prefix u b)]
                   @ copies)"
proof -
  from assms(3) have "blobs \<noteq> []" by auto
  with assms show ?thesis by (simp add: mirror_def Let_def)
qed

text \<open>
  Claim C6. The cache write comes only after the whole copy loop returned without error:
  a run whose calls contain the cache write listed the objects, copied every one of them,
  and wrote the cache as its last call. When the copy of an object raises, the handler
  raises that error; the loop had copied the objects before that one and makes no call
  for those after it; the cache is as before the run and no cache write is among the
  calls; and the objects outside the chats prefix, the published ones among them, stay.
\<close>

theorem copy_error_aborts:
  assumes "route (ev_name ev) = Eligible user_id zip_filename zip_name_base"
    and "download_to_filename be w (ev_name ev) = Inr data"
    and "extractall be zip_filename data = Inr temp_dir"
    and "upload_files be user_id zip_name_base zip_filename temp_dir w = (upload_count, w', cs)"
  shows "(\<forall>r w'' cs''.
            extract_zip be ev w = Some (r, w'', cs'') \<and> DocSet user_id zip_name_base \<in> set cs''
            \<longrightarrow> (\<exists>blobs wc copies.
                   list_blobs be w' (extracted_prefix user_id zip_name_base) = Inr blobs
                   \<and> copy_blobs be (extracted_prefix user_id zip_name_base)
                        (chats_prefix user_id zip_name_base) blobs 0 w'
                      = Some (Inr (length blobs), wc, copies)
                   \<and> cs'' = DownloadToFilename (ev_name ev) # cs
                        @ [BlobExists (extracted_prefix user_id zip_name_base @ ''_chat.txt''),
                           ListBlobs (extracted_prefix user_id zip_name_base)]
                        @ copies @ [DocSet user_id zip_name_base]))
     \<and> (\<forall>blobs e wc copies.
            blob_exists be w' (extracted_prefix user_id zip_name_base @ ''_chat.txt'') = Inr True
            \<and> list_blobs be w' (extracted_prefix user_id zip_name_base) = Inr blobs
            \<and> copy_blobs be (extracted_prefix user_id zip_name_base)
                 (chats_prefix user_id zip_name_base) blobs 0 w'
               = Some (Inl e, wc, copies)
            \<longrightarrow> extract_zip be ev w
                  = Some (Raised e, wc,
                          DownloadToFilename (ev_name ev) # cs
                            @ [BlobExists (extracted_prefix user_id zip_name_base @ ''_chat.txt''),
                               ListBlobs (extracted_prefix user_id zip_name_base)]
                            @ copies)
                \<and> cache wc = cache w
                \<and> (\<forall>c \<in> set (cs @ copies). \<forall>u b. c \<noteq> DocSet u b)
                \<and> (\<forall>k. \<not> prefix (chats_prefix user_id zip_name_base) k
                       \<longrightarrow> map_of (objects wc) k = map_of (objects w') k)
                \<and> (\<exists>pre x post cs_pre cs_x.
                      blobs = pre @ x # post
                      \<and> copy_blobs be (extracted_prefix user_id zip_name_base)
                           (chats_prefix user_id zip_name_base) pre 0 w'
                         = Some (Inr (length pre), wc, cs_pre)
                      \<and> copy_blob be x
                           (chats_prefix user_id zip_name_base
                              @ drop (length (extracted_prefix user_id zip_name_base)) x) wc
                         = Some (Inl e, wc, cs_x)
                      \<and> copies = cs_pre @ cs_x))"
proof (intro conjI allI impI)
  fix r w'' cs''
  assume a: "extract_zip be ev w = Some (r, w'', cs'') \<and> DocSet user_id zip_name_base \<in> set cs''"
  with extract_zip_published [OF assms]
  obtain cs' where m: "mirror be user_id zip_name_base w' = Some (r, w'', cs')"
    and calls: "cs'' = DownloadToFilename (ev_name ev) # cs @ cs'"
    by (auto split: option.splits)
  have "DocSet user_id zip_name_base \<notin> set cs"
    using assms(4) by (auto simp: upload_files_result)
  with a calls have "DocSet user_id zip_name_base \<in> set cs'" by auto
  from mirror_doc_set [OF m this] calls
  show "\<exists>blobs wc copies.
          list_blobs be w' (extracted_prefix user_id zip_name_base) = Inr blobs
          \<and> copy_blobs be (extracted_prefix user_id zip_name_base)
               (chats_prefix user_id zip_name_base) blobs 0 w'
             = Some (Inr (length blobs), wc, copies)
          \<and> cs'' = DownloadToFilename (ev_name ev) # cs
               @ [BlobExists (extracted_prefix user_id zip_name_base @ ''_chat.txt''),
                  ListBlobs (extracted_prefix user_id zip_name_base)]
               @ copies @ [DocSet user_id zip_name_base]"
    by auto
next
  fix blobs e wc copies
  let ?sp = "extracted_prefix user_id zip_name_base" and ?dp = "chats_prefix user_id zip_name_base"
  assume b: "blob_exists be w' (?sp @ ''_chat.txt'') = Inr True
            \<and> list_blobs be w' ?sp = Inr blobs
            \<and> copy_blobs be ?sp ?dp blobs 0 w' = Some (Inl e, wc, copies)"
  then have ex: "blob_exists be w' (?sp @ ''_chat.txt'') = Inr True"
    and l: "list_blobs be w' ?sp = Inr blobs"
    and c: "copy_blobs be ?sp ?dp blobs 0 w' = Some (Inl e, wc, copies)"
    by simp_all
  show "extract_zip be ev w
          = Some (Raised e, wc,
                  DownloadToFilename (ev_name ev) # cs @ [BlobExists (?sp @ ''_chat.txt''), ListBlobs ?sp]
                    @ copies)"
    by (simp add: extract_zip_published [OF assms] mirror_copy_error [OF ex l c])
  show "cache wc = cache w"
    using copy_blobs_frame [OF c] upload_files_cache [OF assms(4)] by simp
  show "\<forall>c \<in> set (cs @ copies). \<forall>u b. c \<noteq> DocSet u b"
    using copy_blobs_calls [OF c] assms(4) by (auto simp: upload_files_result)
  show "\<exists>pre x post cs_pre cs_x.
          blobs = pre @ x # post
          \<and> copy_blobs be ?sp ?dp pre 0 w' = Some (Inr (length pre), wc, cs_pre)
          \<and> copy_blob be x (?dp @ drop (length ?sp) x) wc = Some (Inl e, wc, cs_x)
          \<and> copies = cs_pre @ cs_x"
    using copy_blobs_abort [OF c] by simp
  fix k
  assume "\<not> prefix ?dp k"
  then have "k \<notin> (\<lambda>x. ?dp @ drop (length ?sp) x) ` set blobs" by auto
  with copy_blobs_frame [OF c] show "map_of (objects wc) k = map_of (objects w') k"
    by blast
qed

lemma broken_download:
  "download_to_filename broken_backend scenario_world (ev_name scenario_event) = Inr ''PK''"
  by (simp add: download_to_filename_def broken_backend_def scenario_backend_def
        scenario_world_def scenario_event_def)

lemma broken_extractall:
  "extractall broken_backend ''backup.zip'' ''PK'' = Inr scenario_temp_dir"
  by (simp add: extractall_def broken_backend_def scenario_backend_def scenario_temp_dir_def)

lemma broken_upload_files:
  "upload_files broken_backend ''u1'' ''backup'' ''backup.zip'' scenario_temp_dir scenario_world
     = (3, scenario_published, scenario_uploads)"
  by (simp add: upload_files_def upload_file_step scenario_temp_dir_def scenario_basenames
        broken_backend_def scenario_backend_def scenario_world_def scenario_published_def
        scenario_uploads_def extracted_prefix_def)

lemma broken_exists:
  "blob_exists broken_backend scenario_published (extracted_prefix ''u1'' ''backup'' @ ''_chat.txt'')
     = Inr True"
  by (simp add: blob_exists_def broken_backend_def scenario_backend_def scenario_published_def
        extracted_prefix_def)

lemma broken_list_blobs:
  "list_blobs broken_backend scenario_published (extracted_prefix ''u1'' ''backup'') = Inr scenario_blobs"
  by (simp add: list_blobs_def broken_backend_def scenario_backend_def scenario_published_def
        scenario_blobs_def extracted_prefix_def)

lemma broken_copy_blobs:
  "copy_blobs broken_backend (extracted_prefix ''u1'' ''backup'') (chats_prefix ''u1'' ''backup'')
     scenario_blobs 0 scenario_published
   = Some (Inl StorageError, broken_mirrored, broken_copies)"
  by (simp add: scenario_blobs_def scenario_published_def broken_mirrored_def broken_copies_def
        copy_blob_def rewrite_blob_def broken_backend_def scenario_backend_def Let_def
        extracted_prefix_def chats_prefix_def)

theorem copy_error_aborts_witness:
  "route (ev_name scenario_event) = Eligible ''u1'' ''backup.zip'' ''backup''
   \<and> download_to_filename broken_backend scenario_world (ev_name scenario_event) = Inr ''PK''
   \<and> extractall broken_backend ''backup.zip'' ''PK'' = Inr scenario_temp_dir
   \<and> upload_files broken_backend ''u1'' ''backup'' ''backup.zip'' scenario_temp_dir scenario_world
        = (3, scenario_published, scenario_uploads)
   \<and> blob_exists broken_backend scenario_published (extracted_prefix ''u1'' ''backup'' @ ''_chat.txt'')
        = Inr True
   \<and> list_blobs broken_backend scenario_published (extracted_prefix ''u1'' ''backup'') = Inr scenario_blobs
   \<and> copy_blobs broken_backend (extracted_prefix ''u1'' ''backup'') (chats_prefix ''u1'' ''backup'')
        scenario_blobs 0 scenario_published
        = Some (Inl StorageError, broken_mirrored, broken_copies)
   \<and> extract_zip broken_backend scenario_event scenario_world
        = Some (Raised StorageError, broken_mirrored,
                DownloadToFilename (ev_name scenario_event) # scenario_uploads
                  @ [BlobExists (extracted_prefix ''u1'' ''backup'' @ ''_chat.txt''),
                     ListBlobs (extracted_prefix ''u1'' ''backup'')]
                  @ broken_copies)
   \<and> cache broken_mirrored = cache scenario_world
   \<and> map_of (objects broken_mirrored) ''user/u1/extracted/backup/_chat.txt''
        = map_of (objects scenario_published) ''user/u1/extracted/backup/_chat.txt''
   \<and> map_of (objects broken_mirrored) ''user/u1/chats/backup/_chat.txt'' = None
   \<and> DocSet ''u1'' ''backup''
        \<in> set (DownloadToFilename ''user/u1/uploads/backup.zip'' # scenario_uploads
             @ [BlobExists ''user/u1/extracted/backup/_chat.txt'', ListBlobs ''user/u1/extracted/backup/'']
             @ scenario_copies @ [DocSet ''u1'' ''backup''])
   \<and> (\<exists>blobs wc copies.
         copy_blobs scenario_backend (extracted_prefix ''u1'' ''backup'') (chats_prefix ''u1'' ''backup'')
           blobs 0 scenario_published
         = Some (Inr (length blobs), wc, copies))"
proof -
  note t = copy_error_aborts [OF scenario_route broken_download broken_extractall broken_upload_files]
  note err = t [THEN conjunct2, rule_format, of scenario_blobs StorageError broken_mirrored broken_copies]
  have h: "blob_exists broken_backend scenario_published (extracted_prefix ''u1'' ''backup'' @ ''_chat.txt'')
        = Inr True
   \<and> list_blobs broken_backend scenario_published (extracted_prefix ''u1'' ''backup'') = Inr scenario_blobs
   \<and> copy_blobs broken_backend (extracted_prefix ''u1'' ''backup'') (chats_prefix ''u1'' ''backup'')
        scenario_blobs 0 scenario_published
        = Some (Inl StorageError, broken_mirrored, broken_copies)"
    using broken_exists broken_list_blobs broken_copy_blobs by simp
  from err [OF h] have run: "extract_zip broken_backend scenario_event scenario_world
        = Some (Raised StorageError, broken_mirrored,
                DownloadToFilename (ev_name scenario_event) # scenario_uploads
                  @ [BlobExists (extracted_prefix ''u1'' ''backup'' @ ''_chat.txt''),
                     ListBlobs (extracted_prefix ''u1'' ''backup'')]
                  @ broken_copies)"
    and cache: "cache broken_mirrored = cache scenario_world"
    and keep: "\<forall>k. \<not> prefix (chats_prefix ''u1'' ''backup'') k
                 \<longrightarrow> map_of (objects broken_mirrored) k = map_of (objects scenario_published) k"
    by blast+
  have "\<not> prefix (chats_prefix ''u1'' ''backup'') ''user/u1/extracted/backup/_chat.txt''"
    by (simp add: chats_prefix_def)
  with keep have kept: "map_of (objects broken_mirrored) ''user/u1/extracted/backup/_chat.txt''
        = map_of (objects scenario_published) ''user/u1/extracted/backup/_chat.txt''"
    by blast
  have none: "map_of (objects broken_mirrored) ''user/u1/chats/backup/_chat.txt'' = None"
    by (simp add: broken_mirrored_def)
  note s = copy_error_aborts [OF scenario_route scenario_download scenario_extractall
             scenario_upload_files, THEN conjunct1, rule_format, OF conjI, OF scenario_run]
  have d: "DocSet ''u1'' ''backup''
        \<in> set (DownloadToFilename ''user/u1/uploads/backup.zip'' # scenario_uploads
             @ [BlobExists ''user/u1/extracted/backup/_chat.txt'', ListBlobs ''user/u1/extracted/backup/'']
             @ scenario_copies @ [DocSet ''u1'' ''backup''])"
    by simp
  from s [OF d] have after: "\<exists>blobs wc copies.
         copy_blobs scenario_backend (extracted_prefix ''u1'' ''backup'') (chats_prefix ''u1'' ''backup'')
           blobs 0 scenario_published
         = Some (Inr (length blobs), wc, copies)"
    by blast
  from h run cache kept none d after scenario_route broken_download broken_extractall
    broken_upload_files
  show ?thesis by blast
qed

section \<open>Running the handler again\<close>

lemma rewrite_while_mono_backend:
  assumes "rewrite_while be src dst token cs = Some y"
  shows "\<forall>be'. rewrite be' = rewrite be \<longrightarrow> rewrite_while be' src dst token cs = Some y"
proof (rule rewrite_while.raw_induct [OF _ assms], goal_cases)
  case (1 rw be src dst token cs y)
  show ?case
  proof (intro allI impI)
    fix be' :: backend
    assume same: "rewrite be' = rewrite be"
    show "rewrite_while be' src dst token cs = Some y"
    proof (cases token)
      case None
      with 1(2) show ?thesis by simp
    next
      case (Some t)
      show ?thesis
      proof (cases "rewrite be src dst (Some t)")
        case (Inl e)
        with 1(2) Some same show ?thesis by simp
      next
        case (Inr token')
        with 1(2) Some
        have "rw be src dst token' (cs @ [BlobRewrite src dst (Some t)]) = Some y"
          by simp
        from 1(1) [OF this] same
        have "rewrite_while be' src dst token' (cs @ [BlobRewrite src dst (Some t)]) = Some y"
          by blast
        with Some Inr same show ?thesis by simp
      qed
    qed
  qed
qed

lemma rewrite_while_same_backend:
  assumes "rewrite be' = rewrite be"
  shows "rewrite_while be' src dst token cs = rewrite_while be src dst token cs"
proof (cases "rewrite_while be src dst token cs")
  case (Some y)
  with rewrite_while_mono_backend [OF Some] assms show ?thesis by simp
next
  case None
  show ?thesis
  proof (cases "rewrite_while be' src dst token cs")
    case None
    with \<open>rewrite_while be src dst token cs = None\<close> show ?thesis by simp
  next
    case (Some y)
    from rewrite_while_mono_backend [OF Some] assms
    have "rewrite_while be src dst token cs = Some y" by simp
    with None show ?thesis by simp
  qed
qed

lemma rewrite_blob_same_backend:
  assumes "rewrite be' = rewrite be"
  shows "rewrite_blob be' src dst = rewrite_blob be src dst"
  by (simp add: rewrite_blob_def assms rewrite_while_same_backend [OF assms] cong: sum.case_cong)

lemma copy_blob_same_backend:
  assumes "rewrite be' = rewrite be"
  shows "copy_blob be' src dst w = copy_blob be src dst w"
  by (simp add: copy_blob_def rewrite_blob_same_backend [OF assms] cong: option.case_cong)

lemma copy_blobs_same_backend:
  assumes "rewrite be' = rewrite be"
  shows "copy_blobs be' sp dp blobs cnt w = copy_blobs be sp dp blobs cnt w"
proof (induction blobs arbitrary: cnt w)
  case Nil
  show ?case by simp
next
  case (Cons x blobs)
  show ?case
    by (simp add: copy_blob_same_backend [OF assms] Cons.IH Let_def
          split: option.splits sum.splits prod.splits)
qed

lemma split_on_cut:
  assumes "c \<notin> set a"
  shows "split_on c (a @ c # s) = a # split_on c s"
  using assms by (induction a) (auto simp: Let_def)

lemma split_on_single:
  assumes "c \<notin> set s"
  shows "split_on c s = [s]"
  using assms by (induction s) (auto simp: Let_def)

lemma split_on_two:
  assumes "2 \<le> length (split_on c s)"
  shows "\<exists>a s'. s = a @ c # s' \<and> c \<notin> set a \<and> split_on c s = a # split_on c s'"
proof (cases "c \<in> set s")
  case False
  with assms show ?thesis by (simp add: split_on_single)
next
  case True
  then obtain a s' where "s = a @ c # s'" and "c \<notin> set a"
    by (auto dest: split_list_first)
  then show ?thesis using split_on_cut by blast
qed

lemma route_key_shape:
  assumes "route k = Eligible u zf b"
  shows "\<exists>rest. k = ''user/'' @ u @ ''/uploads/'' @ rest"
proof -
  let ?parts = "split_on CHR ''/'' k"
  from assms have p: "prefix ''user/'' k" and len: "4 \<le> length ?parts"
    and up: "?parts ! 2 = ''uploads''" and u: "u = ?parts ! 1"
    by (auto simp: route_def Let_def split: if_splits)
  from len split_on_two [of "CHR ''/''" k] obtain p0 s1 where
    k: "k = p0 @ CHR ''/'' # s1" and n0: "CHR ''/'' \<notin> set p0"
    and s0: "?parts = p0 # split_on CHR ''/'' s1"
    by auto
  from len s0 split_on_two [of "CHR ''/''" s1] obtain p1 s2 where
    k1: "s1 = p1 @ CHR ''/'' # s2" and s1: "split_on CHR ''/'' s1 = p1 # split_on CHR ''/'' s2"
    by auto
  from len s0 s1 split_on_two [of "CHR ''/''" s2] obtain p2 s3 where
    k2: "s2 = p2 @ CHR ''/'' # s3" and s2: "split_on CHR ''/'' s2 = p2 # split_on CHR ''/'' s3"
    by auto
  from u s0 s1 have p1: "p1 = u" by simp
  from up s0 s1 s2 have p2: "p2 = ''uploads''" by simp
  from p obtain zs where "p0 @ CHR ''/'' # s1 = ''user/'' @ zs"
    by (auto simp: prefix_def k)
  with n0 have p0: "p0 = ''user''"
    by (auto simp: append_eq_append_conv2 append_eq_Cons_conv Cons_eq_append_conv)
  show ?thesis
    by (rule exI [of _ s3]) (simp add: k k1 k2 p0 p1 p2)
qed

lemma fold_update_triv:
  assumes "\<forall>(p, d) \<in> set kvs. map_of al (g p) = Some (h p d)"
  shows "fold (\<lambda>(p, d). AList.update (g p) (h p d)) kvs al = al"
  using assms by (induction kvs) (auto simp: update_triv)

lemma filter_update_other:
  assumes "\<not> P k"
  shows "filter (\<lambda>(n, b). P n) (AList.update k v al) = filter (\<lambda>(n, b). P n) al"
  using assms by (induction al) auto

lemma copy_blobs_listing:
  assumes "copy_blobs be sp dp blobs cnt w = Some (r, w', cs)"
    and "\<forall>k. prefix sp k \<longrightarrow> \<not> prefix dp k"
  shows "filter (\<lambda>(n, b). prefix sp n) (objects w') = filter (\<lambda>(n, b). prefix sp n) (objects w)"
  using assms(1)
proof (induction blobs arbitrary: cnt w r cs)
  case Nil
  then show ?case by simp
next
  case (Cons x blobs)
  let ?dst = "dp @ drop (length sp) x"
  from Cons.prems obtain r1 w1 cs1 where c: "copy_blob be x ?dst w = Some (r1, w1, cs1)"
    by (auto simp: Let_def split: option.splits)
  show ?case
  proof (cases r1)
    case (Inl e)
    with Cons.prems c have "w' = w1" by (simp add: Let_def)
    with copy_blob_Inl c Inl show ?thesis by blast
  next
    case (Inr u)
    with Cons.prems c obtain cs2 where
      r: "copy_blobs be sp dp blobs (Suc cnt) w1 = Some (r, w', cs2)"
      by (auto simp: Let_def split: option.splits)
    from copy_blob_Inr c Inr obtain b where
      w1: "w1 = w\<lparr>objects := AList.update ?dst b (objects w)\<rparr>"
      by blast
    have "\<not> prefix sp ?dst" using assms(2) by auto
    then have "filter (\<lambda>(n, b). prefix sp n) (objects w1) = filter (\<lambda>(n, b). prefix sp n) (objects w)"
      by (simp add: w1 filter_update_other)
    with Cons.IH [OF r] show ?thesis by simp
  qed
qed

lemma copy_blobs_sync:
  assumes "copy_blobs be sp dp blobs cnt w = Some (r, w', cs)"
    and "\<forall>y \<in> set blobs. prefix sp y"
    and "\<forall>k. prefix sp k \<longrightarrow> \<not> prefix dp k"
    and "prefix sp x"
    and "map_of (objects w) (dp @ drop (length sp) x) = map_of (objects w) x"
  shows "map_of (objects w') (dp @ drop (length sp) x) = map_of (objects w') x"
  using assms(1,2,5)
proof (induction blobs arbitrary: cnt w r cs)
  case Nil
  then show ?case by simp
next
  case (Cons y blobs)
  let ?dst = "\<lambda>x. dp @ drop (length sp) x"
  from Cons.prems(1) obtain r1 w1 cs1 where c: "copy_blob be y (?dst y) w = Some (r1, w1, cs1)"
    by (auto simp: Let_def split: option.splits)
  have py: "prefix sp y" and pb: "\<forall>z \<in> set blobs. prefix sp z"
    using Cons.prems(2) by simp_all
  show ?case
  proof (cases r1)
    case (Inl e)
    with Cons.prems(1) c have "w' = w1" by (simp add: Let_def)
    with copy_blob_Inl c Inl Cons.prems(3) show ?thesis by blast
  next
    case (Inr u)
    with Cons.prems(1) c obtain cs2 where
      r: "copy_blobs be sp dp blobs (Suc cnt) w1 = Some (r, w', cs2)"
      by (auto simp: Let_def split: option.splits)
    from copy_blob_Inr c Inr obtain b where b: "map_of (objects w) y = Some b"
      and w1: "w1 = w\<lparr>objects := AList.update (?dst y) b (objects w)\<rparr>"
      by blast
    have nx: "x \<noteq> ?dst y"
      using assms(3,4) by auto
    have "map_of (objects w1) (?dst x) = map_of (objects w1) x"
    proof (cases "y = x")
      case True
      with b nx show ?thesis by (simp add: w1 update_conv')
    next
      case False
      with destination_inj [OF py assms(4)] have "?dst x \<noteq> ?dst y" by auto
      with nx Cons.prems(3) show ?thesis by (simp add: w1 update_conv')
    qed
    from Cons.IH [OF r pb this] show ?thesis .
  qed
qed

lemma copy_blobs_replay:
  assumes "copy_blobs be sp dp blobs cnt w = Some (r, wc, cs)"
    and "\<forall>y \<in> set blobs. prefix sp y"
    and "\<forall>k. prefix sp k \<longrightarrow> \<not> prefix dp k"
    and "objects v = objects wc"
  shows "copy_blobs be sp dp blobs cnt v = Some (r, v, cs)"
  using assms(1,2)
proof (induction blobs arbitrary: cnt w r cs)
  case Nil
  then show ?case by simp
next
  case (Cons x blobs)
  let ?dst = "\<lambda>x. dp @ drop (length sp) x"
  from Cons.prems(1) obtain r1 w1 cs1 where c: "copy_blob be x (?dst x) w = Some (r1, w1, cs1)"
    by (auto simp: Let_def split: option.splits)
  have px: "prefix sp x" and pb: "\<forall>z \<in> set blobs. prefix sp z"
    using Cons.prems(2) by simp_all
  show ?case
  proof (cases r1)
    case (Inl e)
    with Cons.prems(1) c have eq: "r = Inl e" "wc = w1" "cs = cs1" by (simp_all add: Let_def)
    from copy_blob_Inl c Inl have "w1 = w" by blast
    with eq assms(4) have ov: "objects v = objects w" by simp
    from c Inl have "copy_blob be x (?dst x) v = Some (Inl e, v, cs1)"
      by (auto simp: copy_blob_def ov split: option.splits sum.splits prod.splits)
    with eq show ?thesis by (simp add: Let_def)
  next
    case (Inr u)
    with Cons.prems(1) c obtain cs2 where
      r: "copy_blobs be sp dp blobs (Suc cnt) w1 = Some (r, wc, cs2)" and cs: "cs = cs1 @ cs2"
      by (auto simp: Let_def split: option.splits)
    from copy_blob_Inr c Inr obtain b where b: "map_of (objects w) x = Some b"
      and w1: "w1 = w\<lparr>objects := AList.update (?dst x) b (objects w)\<rparr>"
      and rb: "rewrite_blob be x (?dst x) = Some (Inr (), cs1)"
      by blast
    have nx: "x \<noteq> ?dst x"
    proof
      assume "x = ?dst x"
      then have "prefix dp x" by (metis prefixI)
      with assms(3) px show False by blast
    qed
    have x1: "map_of (objects w1) x = Some b"
      using b nx by (simp add: w1 update_conv')
    have d1: "map_of (objects w1) (?dst x) = map_of (objects w1) x"
      using b nx by (simp add: w1 update_conv')
    have "x \<notin> ?dst ` set blobs"
      using assms(3) px by auto
    with copy_blobs_frame [OF r] x1 have xc: "map_of (objects wc) x = Some b"
      by simp
    from copy_blobs_sync [OF r pb assms(3) px d1] xc
    have dc: "map_of (objects wc) (?dst x) = Some b" by simp
    have "AList.update (?dst x) b (objects v) = objects v"
      using dc assms(4) by (simp add: update_triv)
    then have "v\<lparr>objects := AList.update (?dst x) b (objects v)\<rparr> = v"
      by simp
    with xc rb assms(4) have "copy_blob be x (?dst x) v = Some (Inr (), v, cs1)"
      by (simp add: copy_blob_def)
    with Cons.IH [OF r pb] cs show ?thesis by (simp add: Let_def)
  qed
qed

lemma doc_set_objects:
  assumes "doc_set be w u b = Inr w'"
  shows "objects w' = objects w" and "cache w' = (cache w)((u, b) \<mapsto> server_time be)"
  using assms by (auto simp: doc_set_def split: if_splits)

text \<open>What \<open>mirror\<close> computes once the marker is found and the listing did not raise.\<close>

lemma mirror_cases:
  assumes "mirror be u b w = Some (r, w1, cs)"
  shows "(r = Raised StorageError \<and> w1 = w \<and> exists_fails be (extracted_prefix u b @ ''_chat.txt'')
            \<and> cs = [BlobExists (extracted_prefix u b @ ''_chat.txt'')])
       \<or> (r = Returned NoMarker \<and> w1 = w \<and> \<not> exists_fails be (extracted_prefix u b @ ''_chat.txt'')
            \<and> map_of (objects w) (extracted_prefix u b @ ''_chat.txt'') = None
            \<and> cs = [BlobExists (extracted_prefix u b @ ''_chat.txt'')])
       \<or> (r = Raised StorageError \<and> w1 = w \<and> \<not> exists_fails be (extracted_prefix u b @ ''_chat.txt'')
            \<and> map_of (objects w) (extracted_prefix u b @ ''_chat.txt'') \<noteq> None
            \<and> list_fails be (extracted_prefix u b)
            \<and> cs = [BlobExists (extracted_prefix u b @ ''_chat.txt''), ListBlobs (extracted_prefix u b)])
       \<or> (\<not> exists_fails be (extracted_prefix u b @ ''_chat.txt'')
            \<and> map_of (objects w) (extracted_prefix u b @ ''_chat.txt'') \<noteq> None
            \<and> \<not> list_fails be (extracted_prefix u b)
            \<and> (\<exists>rc wc copies.
                  copy_blobs be (extracted_prefix u b) (chats_prefix u b)
                    (map fst (filter (\<lambda>(n, b'). prefix (extracted_prefix u b) n) (objects w))) 0 w
                  = Some (rc, wc, copies)
                  \<and> ((\<exists>e. rc = Inl e \<and> r = Raised e \<and> w1 = wc
                          \<and> cs = [BlobExists (extracted_prefix u b @ ''_chat.txt''),
                                  ListBlobs (extracted_prefix u b)] @ copies)
                     \<or> (\<exists>n. rc = Inr n \<and> set_fails be (u, b) \<and> r = Raised StorageError \<and> w1 = wc
                          \<and> cs = [BlobExists (extracted_prefix u b @ ''_chat.txt''),
                                  ListBlobs (extracted_prefix u b)] @ copies @ [DocSet u b])
                     \<or> (\<exists>n. rc = Inr n \<and> \<not> set_fails be (u, b) \<and> r = Returned (Mirrored n)
                          \<and> w1 = wc\<lparr>cache := (cache wc)((u, b) \<mapsto> server_time be)\<rparr>
                          \<and> cs = [BlobExists (extracted_prefix u b @ ''_chat.txt''),
                                  ListBlobs (extracted_prefix u b)] @ copies @ [DocSet u b]))))"
proof (cases "exists_fails be (extracted_prefix u b @ ''_chat.txt'')")
  case True
  with assms show ?thesis by (simp add: mirror_def blob_exists_def)
next
  case ne: False
  show ?thesis
  proof (cases "map_of (objects w) (extracted_prefix u b @ ''_chat.txt'') = None")
    case True
    with assms ne show ?thesis by (simp add: mirror_no_marker)
  next
    case mk: False
    show ?thesis
    proof (cases "list_fails be (extracted_prefix u b)")
      case True
      with assms ne mk show ?thesis
        by (auto simp: mirror_def blob_exists_def list_blobs_def Let_def)
    next
      case nl: False
      from assms mirror_marker [OF mk ne nl] show ?thesis
        using ne mk nl
        by (auto simp: doc_set_def split: option.splits sum.splits prod.splits if_splits)
    qed
  qed
qed

lemma mirror_frame:
  assumes "mirror be u b w = Some (r, w1, cs)"
    and "\<not> prefix (chats_prefix u b) k"
  shows "map_of (objects w1) k = map_of (objects w) k"
proof -
  have "map_of (objects wc) k = map_of (objects w) k"
    if "copy_blobs be (extracted_prefix u b) (chats_prefix u b) blobs 0 w = Some (rc, wc, copies)"
    for blobs rc wc copies
  proof -
    from assms(2) have "k \<notin> (\<lambda>x. chats_prefix u b @ drop (length (extracted_prefix u b)) x) ` set blobs"
      by auto
    with copy_blobs_frame [OF that] show ?thesis by blast
  qed
  with mirror_cases [OF assms(1)] show ?thesis by auto
qed

lemma mirror_replay:
  assumes "mirror be u b w = Some (r, w1, cs)"
  shows "\<exists>w2. mirror (be\<lparr>server_time := t2\<rparr>) u b w1 = Some (r, w2, cs)
           \<and> objects w2 = objects w1
           \<and> (if \<exists>n. r = Returned (Mirrored n)
               then cache w1 (u, b) = Some (server_time be) \<and> cache w2 = (cache w1)((u, b) \<mapsto> t2)
               else cache w2 = cache w1)"
proof -
  let ?sp = "extracted_prefix u b" and ?dp = "chats_prefix u b"
  let ?be = "be\<lparr>server_time := t2\<rparr>"
  let ?list = "\<lambda>w. map fst (filter (\<lambda>(n, b'). prefix ?sp n) (objects w))"
  have apart: "\<forall>k. prefix ?sp k \<longrightarrow> \<not> prefix ?dp k"
    using prefixes_apart by blast
  have same: "rewrite ?be = rewrite be" by simp
  note c = mirror_cases [OF assms]
  show ?thesis
  proof (cases "exists_fails be (?sp @ ''_chat.txt'') \<or> map_of (objects w) (?sp @ ''_chat.txt'') = None
                \<or> list_fails be ?sp")
    case True
    with c have w1: "w1 = w" by auto
    from True c w1 have "mirror ?be u b w1 = Some (r, w1, cs)"
      by (auto simp: mirror_def blob_exists_def list_blobs_def Let_def)
    moreover from True c have "\<not> (\<exists>n. r = Returned (Mirrored n))" by auto
    ultimately show ?thesis by auto
  next
    case False
    then have ne: "\<not> exists_fails be (?sp @ ''_chat.txt'')"
      and mk: "map_of (objects w) (?sp @ ''_chat.txt'') \<noteq> None"
      and nl: "\<not> list_fails be ?sp"
      by simp_all
    from c False obtain rc wc copies where
      cb: "copy_blobs be ?sp ?dp (?list w) 0 w = Some (rc, wc, copies)"
      and alt: "(\<exists>e. rc = Inl e \<and> r = Raised e \<and> w1 = wc
                  \<and> cs = [BlobExists (?sp @ ''_chat.txt''), ListBlobs ?sp] @ copies)
              \<or> (\<exists>n. rc = Inr n \<and> set_fails be (u, b) \<and> r = Raised StorageError \<and> w1 = wc
                  \<and> cs = [BlobExists (?sp @ ''_chat.txt''), ListBlobs ?sp] @ copies @ [DocSet u b])
              \<or> (\<exists>n. rc = Inr n \<and> \<not> set_fails be (u, b) \<and> r = Returned (Mirrored n)
                  \<and> w1 = wc\<lparr>cache := (cache wc)((u, b) \<mapsto> server_time be)\<rparr>
                  \<and> cs = [BlobExists (?sp @ ''_chat.txt''), ListBlobs ?sp] @ copies @ [DocSet u b])"
      by auto
    from alt have o1: "objects w1 = objects wc" by auto
    have pre: "\<forall>y \<in> set (?list w). prefix ?sp y" by auto
    have l1: "?list w1 = ?list w"
      using copy_blobs_listing [OF cb apart] o1 by simp
    from copy_blobs_frame [OF cb] mk o1 have mk1: "map_of (objects w1) (?sp @ ''_chat.txt'') \<noteq> None"
      by simp
    from copy_blobs_replay [OF cb pre apart o1]
    have "copy_blobs ?be ?sp ?dp (?list w1) 0 w1 = Some (rc, w1, copies)"
      by (simp add: copy_blobs_same_backend [OF same] l1)
    with mirror_marker [of w1 u b ?be, OF mk1] ne nl
    have m2: "mirror ?be u b w1 =
       (case rc of
          Inl e \<Rightarrow> Some (Raised e, w1, [BlobExists (?sp @ ''_chat.txt''), ListBlobs ?sp] @ copies)
        | Inr n \<Rightarrow>
            (case doc_set ?be w1 u b of
               Inl e \<Rightarrow> Some (Raised e, w1,
                               [BlobExists (?sp @ ''_chat.txt''), ListBlobs ?sp] @ copies @ [DocSet u b])
             | Inr w'' \<Rightarrow> Some (Returned (Mirrored n), w'',
                               [BlobExists (?sp @ ''_chat.txt''), ListBlobs ?sp] @ copies @ [DocSet u b])))"
      by (simp split: sum.splits)
    from alt show ?thesis
    proof (elim disjE exE conjE)
      fix e
      assume "rc = Inl e" "r = Raised e" "w1 = wc"
        "cs = [BlobExists (?sp @ ''_chat.txt''), ListBlobs ?sp] @ copies"
      with m2 show ?thesis by simp
    next
      fix n
      assume "rc = Inr n" "set_fails be (u, b)" "r = Raised StorageError" "w1 = wc"
        "cs = [BlobExists (?sp @ ''_chat.txt''), ListBlobs ?sp] @ copies @ [DocSet u b]"
      with m2 show ?thesis by (simp add: doc_set_def)
    next
      fix n
      assume "rc = Inr n" "\<not> set_fails be (u, b)" "r = Returned (Mirrored n)"
        "w1 = wc\<lparr>cache := (cache wc)((u, b) \<mapsto> server_time be)\<rparr>"
        "cs = [BlobExists (?sp @ ''_chat.txt''), ListBlobs ?sp] @ copies @ [DocSet u b]"
      with m2 show ?thesis by (simp add: doc_set_def)
    qed
  qed
qed

lemma upload_files_again:
  assumes "upload_files be u b zf temp_dir w = (n, w', ups)"
    and "distinct (map fst temp_dir)"
    and "\<forall>k. prefix (extracted_prefix u b) k \<longrightarrow> map_of (objects w1) k = map_of (objects w') k"
  shows "upload_files (be\<lparr>server_time := t2\<rparr>) u b zf temp_dir w1 = (n, w1, ups)"
proof -
  let ?pub = "filter (\<lambda>(p, d). basename p \<noteq> zf \<and> \<not> upload_fails be (extracted_prefix u b @ p)) temp_dir"
  have "\<forall>(p, d) \<in> set ?pub.
          map_of (objects w1) (extracted_prefix u b @ p)
            = Some \<lparr>content = d, content_type = guess_type be p\<rparr>"
    using upload_files_published [OF assms(1,2)] assms(3) by auto
  then have "fold (\<lambda>(p, d). AList.update (extracted_prefix u b @ p)
                     \<lparr>content = d, content_type = guess_type be p\<rparr>) ?pub (objects w1)
               = objects w1"
    by (rule fold_update_triv)
  with assms(1) show ?thesis
    by (simp add: upload_files_result)
qed

text \<open>
  Claim C8. After a run that returned, a second run on the same event, with the backend
  behaving as before and a later server time, returns the same result with the same
  calls and leaves the bucket exactly as the first run left it, published and mirrored
  objects included. The cache has the same records as after the first run: when the runs
  mirrored, the record at (user_id, base name) written by the first run now holds the
  second run's server time, and otherwise the cache is unchanged.
\<close>

theorem rerun_idempotent:
  assumes "extract_zip be ev w = Some (r, w1, cs)"
  shows "\<exists>w2. extract_zip (be\<lparr>server_time := t2\<rparr>) ev w1 = Some (r, w2, cs)
      \<and> objects w2 = objects w1
      \<and> dom (cache w2) = dom (cache w1)
      \<and> (\<forall>user_id zip_filename zip_name_base n.
            route (ev_name ev) = Eligible user_id zip_filename zip_name_base
            \<and> r = Returned (Mirrored n)
            \<longrightarrow> cache w1 (user_id, zip_name_base) = Some (server_time be)
                \<and> cache w2 = (cache w1)((user_id, zip_name_base) \<mapsto> t2))
      \<and> ((\<forall>n. r \<noteq> Returned (Mirrored n)) \<longrightarrow> cache w2 = cache w1)"
proof (cases "route (ev_name ev)")
  case Skip_not_upload
  with assms have "extract_zip (be\<lparr>server_time := t2\<rparr>) ev w1 = Some (r, w1, cs)"
    by (auto simp: extract_zip_def)
  with Skip_not_upload show ?thesis by auto
next
  case Skip_intermediate
  with assms have "extract_zip (be\<lparr>server_time := t2\<rparr>) ev w1 = Some (r, w1, cs)"
    by (auto simp: extract_zip_def)
  with Skip_intermediate show ?thesis by auto
next
  case (Eligible u zf b)
  let ?be = "be\<lparr>server_time := t2\<rparr>"
  let ?k = "ev_name ev"
  show ?thesis
  proof (cases "download_to_filename be w ?k")
    case (Inl e)
    with assms Eligible have "r = Returned DownloadFailed" "w1 = w" "cs = [DownloadToFilename ?k]"
      by (auto simp: extract_zip_def)
    moreover from Inl have "download_to_filename ?be w ?k = Inl e"
      by (simp add: download_to_filename_def)
    ultimately have "extract_zip ?be ev w1 = Some (r, w1, cs)"
      using Eligible by (simp add: extract_zip_def)
    with \<open>r = Returned DownloadFailed\<close> show ?thesis by auto
  next
    case (Inr data)
    show ?thesis
    proof (cases "extractall be zf data")
      case (Inl e)
      with assms Eligible Inr have r: "r = Returned NotAZip \<or> r = Returned ExtractFailed"
        and "w1 = w" and "cs = [DownloadToFilename ?k]"
        by (cases e; simp add: extract_zip_def)+
      moreover from Inr have "download_to_filename ?be w ?k = Inr data"
        by (simp add: download_to_filename_def)
      moreover from Inl have "extractall ?be zf data = Inl e"
        by (simp add: extractall_def)
      ultimately have "extract_zip ?be ev w1 = Some (r, w1, cs)"
        using Eligible assms Inr Inl by (simp add: extract_zip_def)
      with r show ?thesis by auto
    next
      case temp: (Inr temp_dir)
      obtain n w' ups where up: "upload_files be u b zf temp_dir w = (n, w', ups)"
        by (cases "upload_files be u b zf temp_dir w") auto
      from assms extract_zip_published [OF Eligible Inr temp up]
      obtain cs' where m: "mirror be u b w' = Some (r, w1, cs')"
        and cs: "cs = DownloadToFilename ?k # ups @ cs'"
        by (auto split: option.splits)
      from route_key_shape [OF Eligible] obtain rest where
        k: "?k = ''user/'' @ u @ ''/uploads/'' @ rest"
        by blast
      have nsp: "\<not> prefix (extracted_prefix u b) ?k"
        by (simp add: k extracted_prefix_def prefix_def)
      have ndp: "\<not> prefix (chats_prefix u b) ?k"
        by (simp add: k chats_prefix_def prefix_def)
      have "map_of (objects w1) ?k = map_of (objects w) ?k"
        using mirror_frame [OF m ndp] upload_files_outside [OF up nsp] by simp
      with Inr have d2: "download_to_filename ?be w1 ?k = Inr data"
        by (simp add: download_to_filename_def split: if_splits)
      from temp have e2: "extractall ?be zf data = Inr temp_dir"
        by (simp add: extractall_def)
      have keep: "\<forall>k. prefix (extracted_prefix u b) k
                    \<longrightarrow> map_of (objects w1) k = map_of (objects w') k"
        using mirror_frame [OF m] prefixes_apart by blast
      note u2 = upload_files_again [OF up extractall_distinct [OF temp] keep, of t2]
      from mirror_replay [OF m, of t2] obtain w2 where
        m2: "mirror ?be u b w1 = Some (r, w2, cs')"
        and o2: "objects w2 = objects w1"
        and c2: "if \<exists>n. r = Returned (Mirrored n)
                 then cache w1 (u, b) = Some (server_time be) \<and> cache w2 = (cache w1)((u, b) \<mapsto> t2)
                 else cache w2 = cache w1"
        by blast
      have run2: "extract_zip ?be ev w1 = Some (r, w2, cs)"
        by (simp add: extract_zip_published [OF Eligible d2 e2 u2] m2 cs)
      have dom: "dom (cache w2) = dom (cache w1)"
        using c2 by (auto split: if_splits)
      from run2 o2 dom c2 Eligible show ?thesis
        by (intro exI [of _ w2]) (auto split: if_splits)
    qed
  qed
qed

theorem rerun_idempotent_witness:
  "extract_zip scenario_backend scenario_event scenario_world
     = Some (Returned (Mirrored 3), scenario_mirrored,
           DownloadToFilename ''user/u1/uploads/backup.zip'' # scenario_uploads
             @ [BlobExists ''user/u1/extracted/backup/_chat.txt'', ListBlobs ''user/u1/extracted/backup/'']
             @ scenario_copies @ [DocSet ''u1'' ''backup''])
   \<and> (\<exists>w2. extract_zip (scenario_backend\<lparr>server_time := 9\<rparr>) scenario_event scenario_mirrored
             = Some (Returned (Mirrored 3), w2,
                 DownloadToFilename ''user/u1/uploads/backup.zip'' # scenario_uploads
                   @ [BlobExists ''user/u1/extracted/backup/_chat.txt'',
                      ListBlobs ''user/u1/extracted/backup/'']
                   @ scenario_copies @ [DocSet ''u1'' ''backup''])
          \<and> objects w2 = objects scenario_mirrored
          \<and> dom (cache w2) = {(''u1'', ''backup'')}
          \<and> cache scenario_mirrored (''u1'', ''backup'') = Some 7
          \<and> cache w2 (''u1'', ''backup'') = Some 9)"
proof -
  from rerun_idempotent [OF scenario_run, of 9] obtain w2 where
    run: "extract_zip (scenario_backend\<lparr>server_time := 9\<rparr>) scenario_event scenario_mirrored
             = Some (Returned (Mirrored 3), w2,
                 DownloadToFilename ''user/u1/uploads/backup.zip'' # scenario_uploads
                   @ [BlobExists ''user/u1/extracted/backup/_chat.txt'',
                      ListBlobs ''user/u1/extracted/backup/'']
                   @ scenario_copies @ [DocSet ''u1'' ''backup''])"
    and obj: "objects w2 = objects scenario_mirrored"
    and dom: "dom (cache w2) = dom (cache scenario_mirrored)"
    and upd: "\<forall>user_id zip_filename zip_name_base n.
            route (ev_name scenario_event) = Eligible user_id zip_filename zip_name_base
            \<and> Returned (Mirrored 3) = Returned (Mirrored n)
            \<longrightarrow> cache scenario_mirrored (user_id, zip_name_base) = Some (server_time scenario_backend)
                \<and> cache w2 = (cache scenario_mirrored)((user_id, zip_name_base) \<mapsto> 9)"
    by blast
  from upd scenario_route have "cache scenario_mirrored (''u1'', ''backup'') = Some (server_time scenario_backend)
      \<and> cache w2 = (cache scenario_mirrored)((''u1'', ''backup'') \<mapsto> 9)"
    by blast
  then have c: "cache scenario_mirrored (''u1'', ''backup'') = Some 7
      \<and> cache w2 (''u1'', ''backup'') = Some 9"
    by (simp add: scenario_backend_def)
  from dom have d: "dom (cache w2) = {(''u1'', ''backup'')}"
    by (simp add: scenario_mirrored_def)
  from run obj d c scenario_run show ?thesis by blast
qed

end
